theory Spec2Isabelle
  imports Main "HOL-Library.List_Lexorder" "HOL-Library.Multiset"
begin

section \<open>Strings\<close>

text \<open>
  A Python \<open>str\<close> is a sequence of Unicode code points. It is modelled as a list of
  integers, one per code point (the value \<open>ord\<close> gives), so that \<open>len\<close>, slicing, \<open>in\<close> and comparison
  count what Python counts; two strings compare lexicographically by code point. A literal
  of the source is written \<open>ascii ''...''\<close>.
\<close>

type_synonym codepoint = int

type_synonym str = "codepoint list"

definition cp :: "char \<Rightarrow> codepoint" where
  "cp c = of_char c"

definition ascii :: "string \<Rightarrow> str" where
  "ascii s = map cp s"

text \<open>
  The characters \<open>str.strip()\<close> removes, those for which \<open>str.isspace()\<close> holds:
  U+0009 to U+000D, U+001C to U+0020, U+0085, U+00A0, U+1680, U+2000 to U+200A, U+2028,
  U+2029, U+202F, U+205F and U+3000.
\<close>

definition is_space :: "codepoint \<Rightarrow> bool" where
  "is_space c =
     ((9 \<le> c \<and> c \<le> 13) \<or> (28 \<le> c \<and> c \<le> 32) \<or> c = 133 \<or> c = 160 \<or> c = 5760
      \<or> (8192 \<le> c \<and> c \<le> 8202) \<or> c = 8232 \<or> c = 8233 \<or> c = 8239 \<or> c = 8287
      \<or> c = 12288)"

definition strip :: "str \<Rightarrow> str" where
  "strip s = rev (dropWhile is_space (rev (dropWhile is_space s)))"

text \<open>
  Case mapping. The case tables of the Unicode database belong to the language runtime and
  not to the repository. For text whose code points are all below 256 the tables are
  written out: \<open>str.lower()\<close> maps \<open>A\<close> to \<open>Z\<close> and U+00C0 to U+00DE, except U+00D7, to
  the code point 32 above and leaves every other code point alone, and under
  \<open>re.IGNORECASE\<close> a literal of the pattern matches a character exactly when the two have
  the same lower case. Beyond that range the tables are a parameter of the model:
  \<open>u_lower\<close> is \<open>str.lower()\<close> and \<open>u_ignorecase\<close> tells whether a literal matches a
  character under \<open>re.IGNORECASE\<close>.
\<close>

record unicode =
  u_lower :: "str \<Rightarrow> str"
  u_ignorecase :: "codepoint \<Rightarrow> codepoint \<Rightarrow> bool"

definition latin1_lower :: "codepoint \<Rightarrow> codepoint" where
  "latin1_lower c =
     (if (65 \<le> c \<and> c \<le> 90) \<or> (192 \<le> c \<and> c \<le> 222 \<and> c \<noteq> 215) then c + 32 else c)"

definition lower :: "unicode \<Rightarrow> str \<Rightarrow> str" where
  "lower U s = (if \<forall>c \<in> set s. c < 256 then map latin1_lower s else u_lower U s)"

definition ignorecase_eq :: "unicode \<Rightarrow> codepoint \<Rightarrow> codepoint \<Rightarrow> bool" where
  "ignorecase_eq U p c =
     (if p < 256 \<and> c < 256 then latin1_lower p = latin1_lower c else u_ignorecase U p c)"

text \<open>\<open>q in s\<close> on strings: \<open>q\<close> occurs in \<open>s\<close> as a contiguous substring.\<close>

fun str_in :: "str \<Rightarrow> str \<Rightarrow> bool" where
  "str_in q [] = (q = [])"
| "str_in q (c # cs) = (take (length q) (c # cs) = q \<or> str_in q cs)"

text \<open>Truthiness of an optional string argument: \<open>None\<close> and \<open>""\<close> are falsy.\<close>

fun truthy :: "str option \<Rightarrow> bool" where
  "truthy None = False"
| "truthy (Some s) = (s \<noteq> [])"

text \<open>\<open>not x or not x.strip()\<close>\<close>

fun blank :: "str option \<Rightarrow> bool" where
  "blank None = True"
| "blank (Some s) = (s = [] \<or> strip s = [])"


section \<open>Insertion-ordered dictionaries\<close>

text \<open>
  A Python \<open>dict\<close> keeps its keys in insertion order; assigning to a key that is present
  replaces the value in place, assigning to a new key appends, and \<open>del\<close> of an absent key
  raises \<open>KeyError\<close>.
\<close>

type_synonym 'v dict = "(str \<times> 'v) list"

definition dict_has :: "str \<Rightarrow> 'v dict \<Rightarrow> bool" where
  "dict_has k d = (k \<in> set (map fst d))"

definition dict_get :: "'v dict \<Rightarrow> str \<Rightarrow> 'v option" where
  "dict_get d k = map_of d k"

fun dict_set :: "str \<Rightarrow> 'v \<Rightarrow> 'v dict \<Rightarrow> 'v dict" where
  "dict_set k v [] = [(k, v)]"
| "dict_set k v (p # ps) = (if fst p = k then (k, v) # ps else p # dict_set k v ps)"

definition dict_del :: "str \<Rightarrow> 'v dict \<Rightarrow> 'v dict" where
  "dict_del k d = filter (\<lambda>p. fst p \<noteq> k) d"

definition dict_values :: "'v dict \<Rightarrow> 'v list" where
  "dict_values d = map snd d"

datatype exn = KeyError | TemplateError | ValueError

text \<open>
  \<open>for memory_id in ids: del memories[memory_id]\<close>. On a missing key the loop stops with
  \<open>KeyError\<close>, and the deletions made so far stay.
\<close>

fun del_each :: "str list \<Rightarrow> 'v dict \<Rightarrow> (exn \<times> 'v dict) + 'v dict" where
  "del_each [] d = Inr d"
| "del_each (k # ks) d = (if dict_has k d then del_each ks (dict_del k d) else Inl (KeyError, d))"


section \<open>Sorting\<close>

text \<open>
  \<open>xs.sort(key=f, reverse=True)\<close>: descending by key, and stable: elements with equal
  keys keep their original relative order. CPython reverses the list, sorts it stably in
  ascending order and reverses it again.
\<close>

definition sort_reverse :: "('a \<Rightarrow> 'k::linorder) \<Rightarrow> 'a list \<Rightarrow> 'a list" where
  "sort_reverse f xs = rev (sort_key f (rev xs))"


section \<open>Data model\<close>

text \<open>\<open>sessions\<close>: session id to \<open>{id, name, created_at, memory_count}\<close>.\<close>

record session =
  s_id :: str
  s_name :: str
  s_created_at :: str
  s_memory_count :: nat

text \<open>\<open>memories\<close>: memory id to \<open>{id, session_id, content, created_at, tags}\<close>.\<close>

record memory =
  m_id :: str
  m_session_id :: str
  m_content :: str
  m_created_at :: str
  m_tags :: "str list"

text \<open>The two module-level dictionaries.\<close>

record state =
  sessions :: "session dict"
  memories :: "memory dict"

definition init :: state where
  "init = \<lparr>sessions = [], memories = []\<rparr>"

text \<open>
  The \<open>arguments\<close> mapping of a tool call, restricted to the keys the tools read and to
  values of the declared types; \<open>None\<close> is an absent key.
\<close>

record arguments =
  a_name :: "str option"
  a_session_id :: "str option"
  a_content :: "str option"
  a_tags :: "str list option"
  a_memory_id :: "str option"
  a_query :: "str option"

definition no_args :: arguments where
  "no_args = \<lparr>a_name = None, a_session_id = None, a_content = None, a_tags = None,
     a_memory_id = None, a_query = None\<rparr>"

definition session_exists :: "state \<Rightarrow> str \<Rightarrow> bool" where
  "session_exists st session_id = dict_has session_id (sessions st)"

definition get_session_memories :: "state \<Rightarrow> str \<Rightarrow> memory list" where
  "get_session_memories st session_id =
     filter (\<lambda>memory. m_session_id memory = session_id) (dict_values (memories st))"

definition update_session_memory_count :: "str \<Rightarrow> state \<Rightarrow> state" where
  "update_session_memory_count session_id st =
     (case dict_get (sessions st) session_id of
        None \<Rightarrow> st
      | Some s \<Rightarrow>
          st\<lparr>sessions := dict_set session_id
            (s\<lparr>s_memory_count := length (get_session_memories st session_id)\<rparr>) (sessions st)\<rparr>)"

text \<open>\<open>sessions[session_id]["name"]\<close>, read only where the key is known to be present.\<close>

definition session_name :: "state \<Rightarrow> str \<Rightarrow> str" where
  "session_name st session_id =
     (case dict_get (sessions st) session_id of None \<Rightarrow> ascii ''Unknown'' | Some s \<Rightarrow> s_name s)"


section \<open>Replies\<close>

text \<open>
  Every handler returns text blocks. The model keeps the values the text is rendered
  from. The error texts are: \<open>Session name cannot be empty\<close> (\<open>EmptyName\<close>),
  \<open>Session ID is required\<close> (\<open>EmptySessionId\<close>), \<open>Memory content cannot be empty\<close>
  (\<open>EmptyContent\<close>), \<open>Search query cannot be empty\<close> (\<open>EmptyQuery\<close>),
  \<open>Memory ID is required\<close> (\<open>EmptyId\<close>), \<open>Session does not exist\<close>
  (\<open>SessionNotFound\<close>) and \<open>Memory does not exist\<close> (\<open>MemoryNotFound\<close>).
\<close>

datatype error =
    EmptyName
  | EmptySessionId
  | EmptyContent
  | EmptyQuery
  | EmptyId
  | SessionNotFound str
  | MemoryNotFound str

record result_block =
  r_memory :: memory
  r_session_name :: str
  r_highlighted :: str

datatype reply =
    Error error
  | SessionCreated str str str
  | Sessions "session list"
  | SessionDeleted str str nat
  | MemoryAdded str str str str "str list" nat str
  | Memories str str "memory list"
  | MemoryRemoved str str str str
  | SessionCleared str str nat
  | SearchResults str "str option" "str list" "result_block list"
  | Raised exn


section \<open>Literal, case-insensitive substitution\<close>

text \<open>
  \<open>re.compile(re.escape(query), re.IGNORECASE).sub(repl, content)\<close>. The pattern matches
  the characters of \<open>query\<close> literally, ignoring case, and has no groups. The replacement
  \<open>repl\<close> is a template: the library processes its backslash escapes before any match is
  looked for, and raises on a malformed one. A template item is a literal character or a
  reference to group 0, the matched text.
\<close>

datatype tpl_item = Literal codepoint | Group0

definition backslash :: codepoint where
  "backslash = 92"

definition is_digit :: "codepoint \<Rightarrow> bool" where
  "is_digit c = (48 \<le> c \<and> c \<le> 57)"

definition is_octdigit :: "codepoint \<Rightarrow> bool" where
  "is_octdigit c = (48 \<le> c \<and> c \<le> 55)"

definition is_ascii_letter :: "codepoint \<Rightarrow> bool" where
  "is_ascii_letter c = ((65 \<le> c \<and> c \<le> 90) \<or> (97 \<le> c \<and> c \<le> 122))"

definition digit_val :: "codepoint \<Rightarrow> int" where
  "digit_val c = c - 48"

text \<open>The escapes a template knows: \<open>\a \b \f \n \r \t \v \\\<close>.\<close>

definition escape_code :: "codepoint \<Rightarrow> codepoint option" where
  "escape_code c =
     (if c = cp CHR ''a'' then Some 7 else if c = cp CHR ''b'' then Some 8
      else if c = cp CHR ''f'' then Some 12 else if c = cp CHR ''n'' then Some 10
      else if c = cp CHR ''r'' then Some 13 else if c = cp CHR ''t'' then Some 9
      else if c = cp CHR ''v'' then Some 11 else if c = backslash then Some 92
      else None)"

definition cons_item :: "tpl_item \<Rightarrow> exn + tpl_item list \<Rightarrow> exn + tpl_item list" where
  "cons_item x r = (case r of Inl e \<Rightarrow> Inl e | Inr xs \<Rightarrow> Inr (x # xs))"

text \<open>
  The template parser, for a pattern without groups. After a backslash:
  \<open>g<name>\<close> is a group reference, valid only when \<open>name\<close> is a decimal numeral of value 0
  (the rule of CPython 3.12; older versions also take a signed or spaced numeral);
  \<open>0\<close> starts an octal escape of up to three digits; another digit is an octal escape when
  three octal digits follow the backslash (at most \<open>0o377\<close>) and an invalid group reference
  otherwise; a known escape yields its character; any other ASCII letter is a bad escape;
  anything else stays as it is, backslash included. A backslash that ends the template is
  an error.
\<close>

function (sequential) parse_template :: "str \<Rightarrow> exn + tpl_item list" where
  "parse_template [] = Inr []"
| "parse_template [c] = (if c = backslash then Inl TemplateError else Inr [Literal c])"
| "parse_template (b # c # rest) =
     (if b \<noteq> backslash then cons_item (Literal b) (parse_template (c # rest))
      else if c = cp CHR ''g'' then
        (if rest \<noteq> [] \<and> hd rest = cp CHR ''<'' \<and> cp CHR ''>'' \<in> set (tl rest)
            \<and> takeWhile (\<lambda>x. x \<noteq> cp CHR ''>'') (tl rest) \<noteq> []
            \<and> (\<forall>d \<in> set (takeWhile (\<lambda>x. x \<noteq> cp CHR ''>'') (tl rest)). d = cp CHR ''0'')
         then cons_item Group0
                (parse_template (drop (Suc (length (takeWhile (\<lambda>x. x \<noteq> cp CHR ''>'') (tl rest)))) (tl rest)))
         else Inl TemplateError)
      else if c = cp CHR ''0'' then
        cons_item
          (Literal (foldl (\<lambda>a d. 8 * a + digit_val d) 0 (take 2 (takeWhile is_octdigit rest)) mod 256))
          (parse_template (drop (length (take 2 (takeWhile is_octdigit rest))) rest))
      else if is_digit c then
        (if is_octdigit c \<and> length (takeWhile is_octdigit rest) \<ge> 2
            \<and> 64 * digit_val c + 8 * digit_val (hd rest) + digit_val (hd (tl rest)) \<le> 255
         then cons_item
                (Literal (64 * digit_val c + 8 * digit_val (hd rest) + digit_val (hd (tl rest))))
                (parse_template (drop 2 rest))
         else Inl TemplateError)
      else
        (case escape_code c of
           Some n \<Rightarrow> cons_item (Literal n) (parse_template rest)
         | None \<Rightarrow>
             if is_ascii_letter c then Inl TemplateError
             else cons_item (Literal b) (cons_item (Literal c) (parse_template rest))))"
  by pat_completeness auto

termination
  by (relation "measure length") auto

fun expand_template :: "tpl_item list \<Rightarrow> str \<Rightarrow> str" where
  "expand_template [] m = []"
| "expand_template (Literal c # t) m = c # expand_template t m"
| "expand_template (Group0 # t) m = m @ expand_template t m"

text \<open>
  The pattern matches at the head of \<open>s\<close> when \<open>s\<close> has at least \<open>length q\<close> characters
  and each literal of \<open>q\<close> matches its character ignoring case.
\<close>

definition matches_here :: "unicode \<Rightarrow> str \<Rightarrow> str \<Rightarrow> bool" where
  "matches_here U q s =
     (length q \<le> length s \<and> list_all2 (ignorecase_eq U) q (take (length q) s))"

text \<open>
  The scan: left to right, at each position the pattern either matches the next
  \<open>length q\<close> characters, which are replaced and skipped, or the character is copied. The
  empty pattern matches at every position and at the end.
\<close>

function sub_scan :: "unicode \<Rightarrow> str \<Rightarrow> tpl_item list \<Rightarrow> str \<Rightarrow> str" where
  "sub_scan U q t [] = (if q = [] then expand_template t [] else [])"
| "sub_scan U q t (c # cs) =
     (if q = [] then expand_template t [] @ c # sub_scan U q t cs
      else if matches_here U q (c # cs)
      then expand_template t (take (length q) (c # cs)) @ sub_scan U q t (drop (length q) (c # cs))
      else c # sub_scan U q t cs)"
  by pat_completeness auto

termination
  by (relation "measure (\<lambda>(U, q, t, s). length s)") auto

definition pattern_sub :: "unicode \<Rightarrow> str \<Rightarrow> str \<Rightarrow> str \<Rightarrow> exn + str" where
  "pattern_sub U query repl content =
     (case parse_template repl of
        Inl e \<Rightarrow> Inl e
      | Inr t \<Rightarrow> Inr (sub_scan U query t content))"


section \<open>Tool handlers\<close>

text \<open>
  \<open>generate_id()\<close> and \<open>get_current_time()\<close> read the environment; their results are
  the inputs \<open>new_id\<close> and \<open>now\<close> of the handlers that call them. The search takes
  the case tables \<open>U\<close>. Handlers that assign
  to a dictionary return the reply and the new state; the others return the reply.
\<close>

definition handle_create_session :: "str \<Rightarrow> str \<Rightarrow> arguments \<Rightarrow> state \<Rightarrow> reply \<times> state" where
  "handle_create_session new_id now args st =
     (if blank (a_name args) then (Error EmptyName, st)
      else
        (let name = strip (the (a_name args));
             session_id = new_id;
             created_at = now
         in (SessionCreated session_id name created_at,
             st\<lparr>sessions := dict_set session_id
               \<lparr>s_id = session_id, s_name = name, s_created_at = created_at, s_memory_count = 0\<rparr>
               (sessions st)\<rparr>)))"

definition handle_list_sessions :: "arguments \<Rightarrow> state \<Rightarrow> reply" where
  "handle_list_sessions args st =
     (if sessions st = [] then Sessions [] else Sessions (dict_values (sessions st)))"

definition handle_delete_session :: "arguments \<Rightarrow> state \<Rightarrow> reply \<times> state" where
  "handle_delete_session args st =
     (if \<not> truthy (a_session_id args) then (Error EmptySessionId, st)
      else
        (let session_id = the (a_session_id args) in
         if \<not> session_exists st session_id then (Error (SessionNotFound session_id), st)
         else
           (let name = session_name st session_id;
                session_memories = get_session_memories st session_id;
                memory_ids_to_delete = map m_id session_memories
            in case del_each memory_ids_to_delete (memories st) of
                 Inl (e, d) \<Rightarrow> (Raised e, st\<lparr>memories := d\<rparr>)
               | Inr d \<Rightarrow>
                   (SessionDeleted name session_id (length memory_ids_to_delete),
                    \<lparr>sessions = dict_del session_id (sessions st), memories = d\<rparr>))))"

text \<open>
  \<open>MemoryAdded memory_id session_name session_id created_at tags memory_count content\<close>.
\<close>

definition handle_add_memory :: "str \<Rightarrow> str \<Rightarrow> arguments \<Rightarrow> state \<Rightarrow> reply \<times> state" where
  "handle_add_memory new_id now args st =
     (let tags = (case a_tags args of None \<Rightarrow> [] | Some ts \<Rightarrow> ts) in
      if \<not> truthy (a_session_id args) then (Error EmptySessionId, st)
      else if blank (a_content args) then (Error EmptyContent, st)
      else
        (let session_id = the (a_session_id args);
             content = the (a_content args)
         in
         if \<not> session_exists st session_id then (Error (SessionNotFound session_id), st)
         else
           (let memory_id = new_id;
                created_at = now;
                st1 = st\<lparr>memories := dict_set memory_id
                        \<lparr>m_id = memory_id, m_session_id = session_id, m_content = strip content,
                         m_created_at = created_at, m_tags = tags\<rparr> (memories st)\<rparr>;
                st2 = update_session_memory_count session_id st1
            in (MemoryAdded memory_id (session_name st2 session_id) session_id created_at tags
                  (case dict_get (sessions st2) session_id of None \<Rightarrow> 0 | Some s \<Rightarrow> s_memory_count s)
                  (strip content),
                st2))))"

definition handle_get_memories :: "arguments \<Rightarrow> state \<Rightarrow> reply" where
  "handle_get_memories args st =
     (if \<not> truthy (a_session_id args) then Error EmptySessionId
      else
        (let session_id = the (a_session_id args) in
         if \<not> session_exists st session_id then Error (SessionNotFound session_id)
         else
           (let session_memories = get_session_memories st session_id;
                name = session_name st session_id
            in if session_memories = [] then Memories name session_id []
               else Memories name session_id (sort_reverse m_created_at session_memories))))"

text \<open>
  \<open>MemoryRemoved memory_id session_name session_id content\<close>; the text shows the first
  100 characters of the content.
\<close>

definition handle_remove_memory :: "arguments \<Rightarrow> state \<Rightarrow> reply \<times> state" where
  "handle_remove_memory args st =
     (if \<not> truthy (a_memory_id args) then (Error EmptyId, st)
      else
        (let memory_id = the (a_memory_id args) in
         case dict_get (memories st) memory_id of
           None \<Rightarrow> (Error (MemoryNotFound memory_id), st)
         | Some memory \<Rightarrow>
             (let session_id = m_session_id memory;
                  name = session_name st session_id;
                  st1 = st\<lparr>memories := dict_del memory_id (memories st)\<rparr>;
                  st2 = (if session_exists st1 session_id
                         then update_session_memory_count session_id st1 else st1)
              in (MemoryRemoved memory_id name session_id (m_content memory), st2))))"

definition handle_clear_session :: "arguments \<Rightarrow> state \<Rightarrow> reply \<times> state" where
  "handle_clear_session args st =
     (if \<not> truthy (a_session_id args) then (Error EmptySessionId, st)
      else
        (let session_id = the (a_session_id args) in
         if \<not> session_exists st session_id then (Error (SessionNotFound session_id), st)
         else
           (let session_memories = get_session_memories st session_id;
                memory_count = length session_memories;
                name = session_name st session_id;
                memory_ids_to_delete = map m_id session_memories
            in case del_each memory_ids_to_delete (memories st) of
                 Inl (e, d) \<Rightarrow> (Raised e, st\<lparr>memories := d\<rparr>)
               | Inr d \<Rightarrow>
                   (SessionCleared name session_id memory_count,
                    update_session_memory_count session_id (st\<lparr>memories := d\<rparr>)))))"

text \<open>The body of the search loop: content match and tag filter of one memory.\<close>

definition memory_matches :: "unicode \<Rightarrow> str \<Rightarrow> str list \<Rightarrow> memory \<Rightarrow> bool" where
  "memory_matches U query_lower tags_filter memory =
     (let content_match = str_in query_lower (lower U (m_content memory));
          tag_match = (if tags_filter \<noteq> [] then (\<exists>tag \<in> set tags_filter. tag \<in> set (m_tags memory))
                       else True)
      in content_match \<and> tag_match)"

text \<open>The highlighting of one result; the replacement is \<open>f"**{query}**"\<close>.\<close>

definition highlight :: "unicode \<Rightarrow> str \<Rightarrow> str \<Rightarrow> str \<Rightarrow> exn + str" where
  "highlight U query query_lower content =
     (if str_in query_lower (lower U content)
      then pattern_sub U query (ascii ''**'' @ query @ ascii ''**'') content
      else Inr content)"

text \<open>The loop that renders the results; an exception in it ends the call.\<close>

fun render_results :: "unicode \<Rightarrow> state \<Rightarrow> str \<Rightarrow> str \<Rightarrow> memory list \<Rightarrow> exn + result_block list" where
  "render_results U st query query_lower [] = Inr []"
| "render_results U st query query_lower (memory # ms) =
     (case highlight U query query_lower (m_content memory) of
        Inl e \<Rightarrow> Inl e
      | Inr highlighted_content \<Rightarrow>
          (case render_results U st query query_lower ms of
             Inl e \<Rightarrow> Inl e
           | Inr rs \<Rightarrow>
               Inr (\<lparr>r_memory = memory,
                     r_session_name = session_name st (m_session_id memory),
                     r_highlighted = highlighted_content\<rparr> # rs)))"

text \<open>
  \<open>SearchResults query scope tags_filter results\<close>; the scope is the name of the session
  searched, or \<open>None\<close> for all sessions.
\<close>

definition handle_search_memories :: "unicode \<Rightarrow> arguments \<Rightarrow> state \<Rightarrow> reply" where
  "handle_search_memories U args st =
     (let session_id = a_session_id args;
          tags_filter = (case a_tags args of None \<Rightarrow> [] | Some ts \<Rightarrow> ts)
      in
      if blank (a_query args) then Error EmptyQuery
      else if truthy session_id \<and> \<not> session_exists st (the session_id)
      then Error (SessionNotFound (the session_id))
      else
        (let query = the (a_query args);
             search_memories = (if truthy session_id then get_session_memories st (the session_id)
                                else dict_values (memories st));
             search_scope = (if truthy session_id then Some (session_name st (the session_id))
                             else None);
             query_lower = lower U (strip query);
             matching_memories =
               sort_reverse m_created_at (filter (memory_matches U query_lower tags_filter) search_memories)
         in
         if matching_memories = [] then SearchResults query search_scope tags_filter []
         else
           (case render_results U st query query_lower matching_memories of
              Inl e \<Rightarrow> Raised e
            | Inr results \<Rightarrow> SearchResults query search_scope tags_filter results)))"

text \<open>The dispatcher; an unknown tool name raises \<open>ValueError\<close>.\<close>

definition handle_call_tool :: "unicode \<Rightarrow> str \<Rightarrow> arguments \<Rightarrow> str \<Rightarrow> str \<Rightarrow> state \<Rightarrow> reply \<times> state" where
  "handle_call_tool U name args new_id now st =
     (if name = ascii ''create_session'' then handle_create_session new_id now args st
      else if name = ascii ''list_sessions'' then (handle_list_sessions args st, st)
      else if name = ascii ''delete_session'' then handle_delete_session args st
      else if name = ascii ''add_memory'' then handle_add_memory new_id now args st
      else if name = ascii ''get_memories'' then (handle_get_memories args st, st)
      else if name = ascii ''remove_memory'' then handle_remove_memory args st
      else if name = ascii ''clear_session'' then handle_clear_session args st
      else if name = ascii ''search_memories'' then (handle_search_memories U args st, st)
      else (Raised ValueError, st))"


section \<open>Invariants, reachable states and example inputs\<close>

declare parse_template.simps [simp del]

declare sub_scan.simps [simp del]

text \<open>Well-formed dictionaries: keys are unique, and every record is stored under its own
  \<open>id\<close>.\<close>

definition keys_ok :: "state \<Rightarrow> bool" where
  "keys_ok st =
     (distinct (map fst (sessions st)) \<and> distinct (map fst (memories st))
      \<and> (\<forall>p \<in> set (sessions st). s_id (snd p) = fst p)
      \<and> (\<forall>p \<in> set (memories st). m_id (snd p) = fst p))"

text \<open>Every stored session's \<open>memory_count\<close> is the number of entries of the memory store
  whose \<open>session_id\<close> is the session's \<open>id\<close>.\<close>

definition counts_ok :: "state \<Rightarrow> bool" where
  "counts_ok st =
     (\<forall>p \<in> set (sessions st).
        s_memory_count (snd p)
          = length (filter (\<lambda>q. m_session_id (snd q) = s_id (snd p)) (memories st)))"

text \<open>Every stored memory references a stored session.\<close>

definition no_orphans :: "state \<Rightarrow> bool" where
  "no_orphans st = (\<forall>p \<in> set (memories st). session_exists st (m_session_id (snd p)))"

text \<open>The invariant of the repository.\<close>

definition inv :: "state \<Rightarrow> bool" where
  "inv st = (keys_ok st \<and> counts_ok st \<and> no_orphans st)"

text \<open>\<open>generate_id()\<close> returns a UUID: an identifier that is not yet a key of either
  dictionary.\<close>

definition fresh_id :: "str \<Rightarrow> state \<Rightarrow> bool" where
  "fresh_id new_id st = (\<not> dict_has new_id (sessions st) \<and> \<not> dict_has new_id (memories st))"

text \<open>The states of the server: the empty stores, and every state a tool call leaves behind.\<close>

inductive reachable :: "state \<Rightarrow> bool" where
  reachable_init: "reachable init"
| reachable_step:
    "reachable st \<Longrightarrow> fresh_id new_id st \<Longrightarrow>
     reachable (snd (handle_call_tool U name args new_id now st))"

text \<open>Example inputs. The examples hold text below U+0100 only, where the case tables are
  written out; \<open>ex_unicode\<close> stands for the rest of the tables.\<close>

definition ex_unicode :: unicode where
  "ex_unicode = \<lparr>u_lower = (\<lambda>s. s), u_ignorecase = (\<lambda>p c. p = c)\<rparr>"

text \<open>A session \<open>proj\<close> holding one memory, and a second, empty session \<open>notes\<close>.\<close>

definition ex_create_args :: arguments where
  "ex_create_args = no_args\<lparr>a_name := Some (ascii '' proj '')\<rparr>"

definition ex_st1 :: state where
  "ex_st1 = snd (handle_create_session (ascii ''s1'') (ascii ''t0'') ex_create_args init)"

definition ex_add_args :: arguments where
  "ex_add_args = no_args\<lparr>a_session_id := Some (ascii ''s1''),
     a_content := Some (ascii ''Build an App ''), a_tags := Some [ascii ''x'', ascii ''y'']\<rparr>"

definition ex_st2 :: state where
  "ex_st2 = snd (handle_add_memory (ascii ''m1'') (ascii ''t1'') ex_add_args ex_st1)"

definition ex_sid_args :: arguments where
  "ex_sid_args = no_args\<lparr>a_session_id := Some (ascii ''s1'')\<rparr>"

definition ex_create_args2 :: arguments where
  "ex_create_args2 = no_args\<lparr>a_name := Some (ascii ''notes'')\<rparr>"

definition ex_st3 :: state where
  "ex_st3 = snd (handle_create_session (ascii ''s2'') (ascii ''t2'') ex_create_args2 ex_st2)"

definition ex_add_args2 :: arguments where
  "ex_add_args2 = no_args\<lparr>a_session_id := Some (ascii ''s2''),
     a_content := Some ([160, 9] @ ascii ''Buy milk'' @ [8232, 32]), a_tags := Some [ascii ''todo'']\<rparr>"

definition ex_sid_args2 :: arguments where
  "ex_sid_args2 = no_args\<lparr>a_session_id := Some (ascii ''s2'')\<rparr>"

text \<open>All whitespace characters, and their non-whitespace neighbours (with U+180E, U+200B and
  U+FEFF).\<close>

definition whitespace_only :: str where
  "whitespace_only = [9, 10, 11, 12, 13, 28, 29, 30, 31, 32, 133, 160, 5760, 8192, 8193, 8194,
     8195, 8196, 8197, 8198, 8199, 8200, 8201, 8202, 8232, 8233, 8239, 8287, 12288]"

definition not_whitespace :: str where
  "not_whitespace = [8, 14, 27, 33, 132, 134, 159, 161, 5759, 5761, 6158, 8191, 8203, 8231,
     8234, 8238, 8240, 8286, 8288, 12287, 12289, 65279]"

text \<open>A search for \<open>APP\<close>, the memory of the first session, and the state after a second
  memory is added to it.\<close>

definition ex_search_args :: arguments where
  "ex_search_args = no_args\<lparr>a_query := Some (ascii ''APP'')\<rparr>"

definition ex_memory1 :: memory where
  "ex_memory1 = \<lparr>m_id = ascii ''m1'', m_session_id = ascii ''s1'',
     m_content = ascii ''Build an App'', m_created_at = ascii ''t1'',
     m_tags = [ascii ''x'', ascii ''y'']\<rparr>"

definition ex_st4 :: state where
  "ex_st4 = snd (handle_call_tool ex_unicode (ascii ''add_memory'') ex_add_args
                  (ascii ''m2'') (ascii ''t3'') ex_st3)"

text \<open>Erroneous inputs: whitespace-only content and name, a missing session, a missing memory.\<close>

definition ex_no_sid_args :: arguments where
  "ex_no_sid_args = no_args\<lparr>a_content := Some whitespace_only\<rparr>"

definition ex_blank_args :: arguments where
  "ex_blank_args = no_args\<lparr>a_session_id := Some (ascii ''zz''), a_content := Some whitespace_only\<rparr>"

definition ex_missing_args :: arguments where
  "ex_missing_args = no_args\<lparr>a_session_id := Some (ascii ''zz''), a_content := Some [8203]\<rparr>"

definition ex_blank_name_args :: arguments where
  "ex_blank_name_args = no_args\<lparr>a_name := Some whitespace_only\<rparr>"

definition ex_missing_memory_args :: arguments where
  "ex_missing_memory_args = no_args\<lparr>a_memory_id := Some (ascii ''zz'')\<rparr>"

text \<open>Two memories added to the first session at the same timestamp, and the memory added to
  the second session.\<close>

definition tie_args_a :: arguments where
  "tie_args_a = no_args\<lparr>a_session_id := Some (ascii ''s1''), a_content := Some (ascii ''first'')\<rparr>"

definition tie_args_b :: arguments where
  "tie_args_b = no_args\<lparr>a_session_id := Some (ascii ''s1''), a_content := Some (ascii ''second'')\<rparr>"

definition tie_state :: state where
  "tie_state = snd (handle_add_memory (ascii ''m2'') (ascii ''t1'') tie_args_b
                 (snd (handle_add_memory (ascii ''m1'') (ascii ''t1'') tie_args_a ex_st1)))"

definition tie_first :: memory where
  "tie_first = \<lparr>m_id = ascii ''m1'', m_session_id = ascii ''s1'', m_content = ascii ''first'',
     m_created_at = ascii ''t1'', m_tags = []\<rparr>"

definition tie_second :: memory where
  "tie_second = \<lparr>m_id = ascii ''m2'', m_session_id = ascii ''s1'', m_content = ascii ''second'',
     m_created_at = ascii ''t1'', m_tags = []\<rparr>"

definition ex_memory2 :: memory where
  "ex_memory2 = \<lparr>m_id = ascii ''m2'', m_session_id = ascii ''s2'', m_content = ascii ''Buy milk'',
     m_created_at = ascii ''t3'', m_tags = [ascii ''todo'']\<rparr>"

text \<open>The display transform as the specification words it: scanning left to right, every
  case-insensitive, non-overlapping occurrence of the literal query in the content is
  replaced by the query itself, in the query's own casing, between emphasis markers.\<close>

function spec_highlight :: "unicode \<Rightarrow> str \<Rightarrow> str \<Rightarrow> str" where
  "spec_highlight U q [] = []"
| "spec_highlight U q (c # cs) =
     (if q \<noteq> [] \<and> matches_here U q (c # cs)
      then ascii ''**'' @ q @ ascii ''**'' @ spec_highlight U q (drop (length q) (c # cs))
      else c # spec_highlight U q cs)"
  by pat_completeness auto

termination
  by (relation "measure (\<lambda>(U, q, s). length s)") auto

declare spec_highlight.simps [simp del]

text \<open>A query that holds a backslash followed by \<open>n\<close>, and a memory whose content
  contains it.\<close>

definition nl_query :: str where
  "nl_query = [backslash, cp CHR ''n'']"

definition nl_add_args :: arguments where
  "nl_add_args = no_args\<lparr>a_session_id := Some (ascii ''s1''),
     a_content := Some (ascii ''a'' @ nl_query @ ascii ''b'')\<rparr>"

definition nl_state :: state where
  "nl_state = snd (handle_add_memory (ascii ''m1'') (ascii ''t1'') nl_add_args ex_st1)"

definition nl_memory :: memory where
  "nl_memory = \<lparr>m_id = ascii ''m1'', m_session_id = ascii ''s1'',
     m_content = ascii ''a'' @ nl_query @ ascii ''b'', m_created_at = ascii ''t1'', m_tags = []\<rparr>"

definition nl_search_args :: arguments where
  "nl_search_args = no_args\<lparr>a_query := Some nl_query\<rparr>"

text \<open>A query that holds a backslash followed by \<open>d\<close>, and a memory whose content
  contains it.\<close>

definition bd_query :: str where
  "bd_query = [backslash, cp CHR ''d'']"

definition bd_add_args :: arguments where
  "bd_add_args = no_args\<lparr>a_session_id := Some (ascii ''s1''),
     a_content := Some (ascii ''C:'' @ bd_query @ ascii ''ata'')\<rparr>"

definition bd_state :: state where
  "bd_state = snd (handle_add_memory (ascii ''m1'') (ascii ''t1'') bd_add_args ex_st1)"

definition bd_memory :: memory where
  "bd_memory = \<lparr>m_id = ascii ''m1'', m_session_id = ascii ''s1'',
     m_content = ascii ''C:'' @ bd_query @ ascii ''ata'', m_created_at = ascii ''t1'', m_tags = []\<rparr>"

definition bd_search_args :: arguments where
  "bd_search_args = no_args\<lparr>a_query := Some bd_query\<rparr>"


section \<open>Dictionary lemmas\<close>

lemma length_get_session_memories:
  "length (get_session_memories st k)
     = length (filter (\<lambda>q. m_session_id (snd q) = k) (memories st))"
  by (simp add: get_session_memories_def dict_values_def filter_map comp_def)

lemma counts_ok_gsm:
  "counts_ok st \<longleftrightarrow>
     (\<forall>p \<in> set (sessions st).
        s_memory_count (snd p) = length (get_session_memories st (s_id (snd p))))"
  by (simp add: counts_ok_def length_get_session_memories)

lemma dict_has_dict_set: "dict_has k' (dict_set k v d) = (k' = k \<or> dict_has k' d)"
  by (induction d) (auto simp: dict_has_def)

lemma map_fst_dict_set_has: "dict_has k d \<Longrightarrow> map fst (dict_set k v d) = map fst d"
  by (induction d) (auto simp: dict_has_def)

lemma dict_set_fresh: "\<not> dict_has k d \<Longrightarrow> dict_set k v d = d @ [(k, v)]"
  by (induction d) (auto simp: dict_has_def)

lemma dict_set_present:
  "distinct (map fst d) \<Longrightarrow> dict_has k d \<Longrightarrow>
   dict_set k v d = map (\<lambda>p. if fst p = k then (k, v) else p) d"
proof (induction d)
  case Nil then show ?case by (simp add: dict_has_def)
next
  case (Cons p ps)
  show ?case
  proof (cases "fst p = k")
    case True
    from Cons.prems(1) True have "k \<notin> fst ` set ps" by simp
    then have "\<forall>q \<in> set ps. fst q \<noteq> k" by blast
    then have "map (\<lambda>p. if fst p = k then (k, v) else p) ps = ps"
      by (induction ps) auto
    with True show ?thesis by simp
  next
    case False
    with Cons show ?thesis by (auto simp: dict_has_def)
  qed
qed

lemma distinct_dict_set: "distinct (map fst d) \<Longrightarrow> distinct (map fst (dict_set k v d))"
  by (cases "dict_has k d") (auto simp: map_fst_dict_set_has dict_set_fresh dict_has_def)

lemma distinct_dict_del: "distinct (map fst d) \<Longrightarrow> distinct (map fst (dict_del k d))"
  by (simp add: dict_del_def distinct_map_filter)

lemma dict_has_dict_del: "dict_has k' (dict_del k d) = (k' \<noteq> k \<and> dict_has k' d)"
  by (auto simp: dict_has_def dict_del_def)

lemma set_dict_set: "set (dict_set k v d) \<subseteq> insert (k, v) (set d)"
  by (induction d) auto

lemma dict_get_has: "dict_has k d = (dict_get d k \<noteq> None)"
  by (simp add: dict_has_def dict_get_def map_of_eq_None_iff)

lemma dict_get_mem: "dict_get d k = Some v \<Longrightarrow> (k, v) \<in> set d"
  by (simp add: dict_get_def map_of_SomeD)

lemma del_each_keys:
  "distinct ks \<Longrightarrow> set ks \<subseteq> fst ` set d \<Longrightarrow>
   del_each ks d = Inr (filter (\<lambda>p. fst p \<notin> set ks) d)"
proof (induction ks arbitrary: d)
  case Nil then show ?case by simp
next
  case (Cons k ks)
  have "set ks \<subseteq> fst ` set (dict_del k d)"
    using Cons.prems by (fastforce simp: dict_del_def)
  with Cons have "del_each ks (dict_del k d) = Inr (filter (\<lambda>p. fst p \<notin> set ks) (dict_del k d))"
    by simp
  moreover have "dict_has k d" using Cons.prems by (auto simp: dict_has_def)
  ultimately show ?case by (auto simp: dict_del_def intro: filter_cong)
qed

lemma del_each_session:
  assumes "keys_ok st"
  shows "del_each (map m_id (get_session_memories st sid)) (memories st)
         = Inr (filter (\<lambda>p. m_session_id (snd p) \<noteq> sid) (memories st))"
proof -
  let ?d = "memories st"
  let ?ks = "map m_id (get_session_memories st sid)"
  have d: "distinct (map fst ?d)" and ids: "\<forall>p \<in> set ?d. m_id (snd p) = fst p"
    using assms by (auto simp: keys_ok_def)
  have ks: "?ks = map fst (filter (\<lambda>p. m_session_id (snd p) = sid) ?d)"
    using ids by (simp add: get_session_memories_def dict_values_def filter_map comp_def)
  have "distinct ?ks" unfolding ks using d by (rule distinct_map_filter)
  moreover have "set ?ks \<subseteq> fst ` set ?d" unfolding ks by auto
  ultimately have "del_each ?ks ?d = Inr (filter (\<lambda>p. fst p \<notin> set ?ks) ?d)"
    by (rule del_each_keys)
  moreover have "filter (\<lambda>p. fst p \<notin> set ?ks) ?d = filter (\<lambda>p. m_session_id (snd p) \<noteq> sid) ?d"
  proof (rule filter_cong[OF refl])
    fix p assume p: "p \<in> set ?d"
    show "(fst p \<notin> set ?ks) = (m_session_id (snd p) \<noteq> sid)"
    proof
      assume "fst p \<notin> set ?ks" with p show "m_session_id (snd p) \<noteq> sid"
        unfolding ks by force
    next
      assume n: "m_session_id (snd p) \<noteq> sid"
      show "fst p \<notin> set ?ks"
      proof
        assume "fst p \<in> set ?ks"
        then obtain q where q: "q \<in> set ?d" "m_session_id (snd q) = sid" "fst q = fst p"
          unfolding ks by auto
        with d p have "q = p" by (metis eq_key_imp_eq_value prod.collapse)
        with q n show False by simp
      qed
    qed
  qed
  ultimately show ?thesis by simp
qed


section \<open>Template errors\<close>

lemma cons_item_Inl: "cons_item x r = Inl e \<Longrightarrow> r = Inl e"
  by (cases r) (auto simp: cons_item_def)

lemma parse_template_error: "parse_template s = Inl e \<Longrightarrow> e = TemplateError"
proof (induction s rule: parse_template.induct)
  case 1 then show ?case by (simp add: parse_template.simps)
next
  case (2 c) then show ?case by (simp add: parse_template.simps split: if_splits)
next
  case (3 b c rest)
  note IH = "3.IH" and P = "3.prems"[unfolded parse_template.simps]
  show ?case
  proof (cases "b \<noteq> backslash")
    case True
    with P have "parse_template (c # rest) = Inl e" by (auto dest: cons_item_Inl)
    with IH(1) True show ?thesis by simp
  next
    case b: False
    show ?thesis
    proof (cases "c = cp CHR ''g''")
      case True
      show ?thesis
        using P b True IH(2) by (auto split: if_splits dest!: cons_item_Inl)
    next
      case g: False
      show ?thesis
      proof (cases "c = cp CHR ''0''")
        case True
        show ?thesis using P b g True IH(3) by (auto split: if_splits dest!: cons_item_Inl)
      next
        case z: False
        show ?thesis
        proof (cases "is_digit c")
          case True
          show ?thesis using P b g z True IH(4) by (auto split: if_splits dest!: cons_item_Inl)
        next
          case d: False
          show ?thesis using P b g z d IH(5,6)
            by (auto split: if_splits option.splits dest!: cons_item_Inl)
        qed
      qed
    qed
  qed
qed

lemma highlight_error: "highlight U q ql c = Inl e \<Longrightarrow> e = TemplateError"
  unfolding highlight_def pattern_sub_def
  by (auto split: sum.splits if_splits dest: parse_template_error)

lemma render_results_error: "render_results U st q ql ms = Inl e \<Longrightarrow> e = TemplateError"
proof (induction ms)
  case Nil then show ?case by simp
next
  case (Cons m ms)
  then show ?case
    by (auto split: sum.splits dest: highlight_error)
qed

lemma render_results_memories:
  "render_results U st q ql ms = Inr rs \<Longrightarrow> map r_memory rs = ms"
  by (induction ms arbitrary: rs) (auto split: sum.splits)

lemma set_dict_set_distinct:
  "distinct (map fst d) \<Longrightarrow> set (dict_set k v d) = insert (k, v) {p \<in> set d. fst p \<noteq> k}"
proof (induction d)
  case Nil then show ?case by simp
next
  case (Cons p ps)
  show ?case
  proof (cases "fst p = k")
    case True
    from Cons.prems True have "k \<notin> fst ` set ps" by simp
    then have "{q \<in> set ps. fst q \<noteq> k} = set ps" by force
    with True show ?thesis by auto
  next
    case False
    with Cons show ?thesis by auto
  qed
qed

lemma dict_get_dict_set_same: "dict_get (dict_set k v d) k = Some v"
  by (induction d) (auto simp: dict_get_def)

lemma dict_get_unique:
  "distinct (map fst d) \<Longrightarrow> (k, v) \<in> set d \<Longrightarrow> dict_get d k = Some v"
  by (simp add: dict_get_def)


section \<open>Recomputing a memory count\<close>

lemma usmc_memories [simp]: "memories (update_session_memory_count sid st) = memories st"
  by (simp add: update_session_memory_count_def split: option.splits)

lemma usmc_gsm [simp]:
  "get_session_memories (update_session_memory_count sid st) k = get_session_memories st k"
  by (simp add: get_session_memories_def)

lemma usmc_keys [simp]:
  "map fst (sessions (update_session_memory_count sid st)) = map fst (sessions st)"
  by (auto simp: update_session_memory_count_def map_fst_dict_set_has dict_get_has
      split: option.splits)

lemma usmc_exists [simp]:
  "session_exists (update_session_memory_count sid st) k = session_exists st k"
  by (simp add: session_exists_def dict_has_def)

lemma usmc_set:
  assumes "distinct (map fst (sessions st))"
  shows "set (sessions (update_session_memory_count sid st)) =
     (case dict_get (sessions st) sid of
        None \<Rightarrow> set (sessions st)
      | Some s \<Rightarrow> insert (sid, s\<lparr>s_memory_count := length (get_session_memories st sid)\<rparr>)
                    {p \<in> set (sessions st). fst p \<noteq> sid})"
  using assms
  by (simp add: update_session_memory_count_def set_dict_set_distinct split: option.splits)

lemma keys_ok_usmc: "keys_ok st \<Longrightarrow> keys_ok (update_session_memory_count sid st)"
proof -
  assume k: "keys_ok st"
  then have d: "distinct (map fst (sessions st))" by (simp add: keys_ok_def)
  have "\<forall>p \<in> set (sessions (update_session_memory_count sid st)). s_id (snd p) = fst p"
  proof (cases "dict_get (sessions st) sid")
    case None
    then show ?thesis using k by (simp add: usmc_set[OF d] keys_ok_def)
  next
    case (Some s)
    then have "(sid, s) \<in> set (sessions st)" by (rule dict_get_mem)
    with k have "s_id s = sid" by (auto simp: keys_ok_def)
    with Some k show ?thesis by (auto simp: usmc_set[OF d] keys_ok_def)
  qed
  with k show ?thesis by (simp add: keys_ok_def)
qed

lemma counts_ok_usmc:
  assumes k: "keys_ok st"
    and others: "\<forall>p \<in> set (sessions st). fst p \<noteq> sid \<longrightarrow>
       s_memory_count (snd p) = length (get_session_memories st (s_id (snd p)))"
  shows "counts_ok (update_session_memory_count sid st)"
proof -
  from k have d: "distinct (map fst (sessions st))" by (simp add: keys_ok_def)
  show ?thesis
  proof (cases "dict_get (sessions st) sid")
    case None
    then have "\<forall>p \<in> set (sessions st). fst p \<noteq> sid"
      by (auto simp: dict_get_def map_of_eq_None_iff)
    with others None show ?thesis by (simp add: counts_ok_gsm usmc_set[OF d])
  next
    case (Some s)
    then have "(sid, s) \<in> set (sessions st)" by (rule dict_get_mem)
    with k have "s_id s = sid" by (auto simp: keys_ok_def)
    with Some others show ?thesis by (auto simp: counts_ok_gsm usmc_set[OF d])
  qed
qed

lemma no_orphans_usmc: "no_orphans st \<Longrightarrow> no_orphans (update_session_memory_count sid st)"
  by (simp add: no_orphans_def)


section \<open>Every handler preserves the invariant\<close>

lemma gsm_orphan_free:
  "no_orphans st \<Longrightarrow> \<not> session_exists st k \<Longrightarrow> get_session_memories st k = []"
  by (auto simp: no_orphans_def get_session_memories_def dict_values_def filter_empty_conv)

lemma inv_create_session:
  assumes "inv st" "fresh_id new_id st"
  shows "inv (snd (handle_create_session new_id now args st))"
proof (cases "blank (a_name args)")
  case True
  with assms show ?thesis by (simp add: handle_create_session_def)
next
  case False
  let ?s = "\<lparr>s_id = new_id, s_name = strip (the (a_name args)), s_created_at = now,
             s_memory_count = 0\<rparr>"
  let ?st = "st\<lparr>sessions := sessions st @ [(new_id, ?s)]\<rparr>"
  from assms have nex: "\<not> session_exists st new_id"
    by (simp add: fresh_id_def session_exists_def)
  with False have eq: "snd (handle_create_session new_id now args st) = ?st"
    by (simp add: handle_create_session_def Let_def session_exists_def dict_set_fresh)
  from assms have k: "keys_ok st" and c: "counts_ok st" and o: "no_orphans st"
    by (simp_all add: inv_def)
  have g: "get_session_memories ?st = get_session_memories st"
    by (simp add: get_session_memories_def fun_eq_iff)
  have "keys_ok ?st"
    using k nex by (auto simp: keys_ok_def session_exists_def dict_has_def)
  moreover have "counts_ok ?st"
    using c gsm_orphan_free[OF o nex] by (auto simp: counts_ok_gsm g)
  moreover have "no_orphans ?st"
    using o by (auto simp: no_orphans_def session_exists_def dict_has_def)
  ultimately show ?thesis by (simp add: eq inv_def)
qed

lemma inv_add_memory:
  assumes "inv st" "fresh_id new_id st"
  shows "inv (snd (handle_add_memory new_id now args st))"
proof (cases "truthy (a_session_id args) \<and> \<not> blank (a_content args)
              \<and> session_exists st (the (a_session_id args))")
  case False
  with assms show ?thesis by (auto simp: handle_add_memory_def Let_def)
next
  case True
  define sid where "sid = the (a_session_id args)"
  define m where "m = \<lparr>m_id = new_id, m_session_id = sid,
      m_content = strip (the (a_content args)), m_created_at = now,
      m_tags = (case a_tags args of None \<Rightarrow> [] | Some ts \<Rightarrow> ts)\<rparr>"
  define st1 where "st1 = st\<lparr>memories := memories st @ [(new_id, m)]\<rparr>"
  from assms have nm: "\<not> dict_has new_id (memories st)" by (simp add: fresh_id_def)
  from True have eq: "snd (handle_add_memory new_id now args st)
      = update_session_memory_count sid st1"
    by (simp add: handle_add_memory_def Let_def sid_def m_def st1_def dict_set_fresh[OF nm])
  from assms have k: "keys_ok st" and c: "counts_ok st" and o: "no_orphans st"
    by (simp_all add: inv_def)
  from True have ex: "session_exists st sid" by (simp add: sid_def)
  have k1: "keys_ok st1"
    using k nm by (auto simp: keys_ok_def st1_def dict_has_def m_def)
  have g: "\<And>k. k \<noteq> sid \<Longrightarrow> get_session_memories st1 k = get_session_memories st k"
    by (simp add: get_session_memories_def st1_def dict_values_def m_def)
  have "\<forall>p \<in> set (sessions st1). fst p \<noteq> sid \<longrightarrow>
       s_memory_count (snd p) = length (get_session_memories st1 (s_id (snd p)))"
  proof (intro ballI impI)
    fix p assume p: "p \<in> set (sessions st1)" "fst p \<noteq> sid"
    then have p': "p \<in> set (sessions st)" by (simp add: st1_def)
    with k have "s_id (snd p) = fst p" by (simp add: keys_ok_def)
    with p g have "get_session_memories st1 (s_id (snd p)) = get_session_memories st (s_id (snd p))"
      by simp
    with c p' show "s_memory_count (snd p) = length (get_session_memories st1 (s_id (snd p)))"
      by (simp add: counts_ok_gsm)
  qed
  with k1 have "counts_ok (update_session_memory_count sid st1)" by (rule counts_ok_usmc)
  moreover have "keys_ok (update_session_memory_count sid st1)" using k1 by (rule keys_ok_usmc)
  moreover have "no_orphans st1"
    using o ex by (auto simp: no_orphans_def st1_def session_exists_def m_def)
  then have "no_orphans (update_session_memory_count sid st1)" by (rule no_orphans_usmc)
  ultimately show ?thesis by (simp add: eq inv_def)
qed

lemma gsm_filter_other:
  "k \<noteq> sid \<Longrightarrow>
   get_session_memories (st\<lparr>memories := filter (\<lambda>p. m_session_id (snd p) \<noteq> sid) (memories st)\<rparr>) k
   = get_session_memories st k"
  by (auto simp: get_session_memories_def dict_values_def filter_map comp_def intro!: arg_cong[where f="map snd"] filter_cong)

lemma gsm_filter_same:
  "get_session_memories (st\<lparr>memories := filter (\<lambda>p. m_session_id (snd p) \<noteq> sid) (memories st)\<rparr>) sid = []"
  by (auto simp: get_session_memories_def dict_values_def filter_empty_conv)

lemma keys_ok_filter:
  "keys_ok st \<Longrightarrow> keys_ok (st\<lparr>memories := filter P (memories st)\<rparr>)"
  by (auto simp: keys_ok_def distinct_map_filter)

lemma clear_session_result:
  assumes "keys_ok st" "truthy (a_session_id args)" "session_exists st (the (a_session_id args))"
  shows "handle_clear_session args st =
     (SessionCleared (session_name st (the (a_session_id args))) (the (a_session_id args))
        (length (get_session_memories st (the (a_session_id args)))),
      update_session_memory_count (the (a_session_id args))
        (st\<lparr>memories := filter (\<lambda>p. m_session_id (snd p) \<noteq> the (a_session_id args)) (memories st)\<rparr>))"
  using assms by (simp add: handle_clear_session_def Let_def del_each_session)

lemma delete_session_result:
  assumes "keys_ok st" "truthy (a_session_id args)" "session_exists st (the (a_session_id args))"
  shows "handle_delete_session args st =
     (SessionDeleted (session_name st (the (a_session_id args))) (the (a_session_id args))
        (length (get_session_memories st (the (a_session_id args)))),
      \<lparr>sessions = dict_del (the (a_session_id args)) (sessions st),
       memories = filter (\<lambda>p. m_session_id (snd p) \<noteq> the (a_session_id args)) (memories st)\<rparr>)"
  using assms by (simp add: handle_delete_session_def Let_def del_each_session)

lemma inv_clear_session:
  assumes "inv st"
  shows "inv (snd (handle_clear_session args st))"
proof (cases "truthy (a_session_id args) \<and> session_exists st (the (a_session_id args))")
  case False
  with assms show ?thesis by (auto simp: handle_clear_session_def Let_def)
next
  case True
  define sid where "sid = the (a_session_id args)"
  define st1 where "st1 = st\<lparr>memories := filter (\<lambda>p. m_session_id (snd p) \<noteq> sid) (memories st)\<rparr>"
  from assms have k: "keys_ok st" and c: "counts_ok st" and o: "no_orphans st"
    by (simp_all add: inv_def)
  from True k have eq: "snd (handle_clear_session args st) = update_session_memory_count sid st1"
    by (simp add: clear_session_result sid_def st1_def)
  have k1: "keys_ok st1" unfolding st1_def using k by (rule keys_ok_filter)
  have "\<forall>p \<in> set (sessions st1). fst p \<noteq> sid \<longrightarrow>
       s_memory_count (snd p) = length (get_session_memories st1 (s_id (snd p)))"
  proof (intro ballI impI)
    fix p assume p: "p \<in> set (sessions st1)" "fst p \<noteq> sid"
    then have p': "p \<in> set (sessions st)" by (simp add: st1_def)
    with k have "s_id (snd p) = fst p" by (simp add: keys_ok_def)
    with p have "get_session_memories st1 (s_id (snd p)) = get_session_memories st (s_id (snd p))"
      unfolding st1_def by (simp add: gsm_filter_other)
    with c p' show "s_memory_count (snd p) = length (get_session_memories st1 (s_id (snd p)))"
      by (simp add: counts_ok_gsm)
  qed
  with k1 have "counts_ok (update_session_memory_count sid st1)" by (rule counts_ok_usmc)
  moreover have "keys_ok (update_session_memory_count sid st1)" using k1 by (rule keys_ok_usmc)
  moreover have "no_orphans st1"
    using o by (auto simp: no_orphans_def st1_def session_exists_def)
  then have "no_orphans (update_session_memory_count sid st1)" by (rule no_orphans_usmc)
  ultimately show ?thesis by (simp add: eq inv_def)
qed

lemma inv_delete_session:
  assumes "inv st"
  shows "inv (snd (handle_delete_session args st))"
proof (cases "truthy (a_session_id args) \<and> session_exists st (the (a_session_id args))")
  case False
  with assms show ?thesis by (auto simp: handle_delete_session_def Let_def)
next
  case True
  define sid where "sid = the (a_session_id args)"
  define st1 where "st1 = st\<lparr>memories := filter (\<lambda>p. m_session_id (snd p) \<noteq> sid) (memories st)\<rparr>"
  define st2 where "st2 = \<lparr>sessions = dict_del sid (sessions st),
      memories = filter (\<lambda>p. m_session_id (snd p) \<noteq> sid) (memories st)\<rparr>"
  from assms have k: "keys_ok st" and c: "counts_ok st" and o: "no_orphans st"
    by (simp_all add: inv_def)
  from True k have eq: "snd (handle_delete_session args st) = st2"
    by (simp add: delete_session_result sid_def st2_def)
  have g: "get_session_memories st2 = get_session_memories st1"
    by (simp add: get_session_memories_def st1_def st2_def fun_eq_iff)
  have "keys_ok st2"
    using k by (auto simp: keys_ok_def st2_def distinct_map_filter dict_del_def)
  moreover have "counts_ok st2"
    unfolding counts_ok_gsm
  proof
    fix p assume "p \<in> set (sessions st2)"
    then have p: "p \<in> set (sessions st)" "fst p \<noteq> sid" by (auto simp: st2_def dict_del_def)
    with k have i: "s_id (snd p) = fst p" by (simp add: keys_ok_def)
    with p have "get_session_memories st2 (s_id (snd p)) = get_session_memories st (s_id (snd p))"
      unfolding g st1_def by (simp add: gsm_filter_other)
    with c p show "s_memory_count (snd p) = length (get_session_memories st2 (s_id (snd p)))"
      by (simp add: counts_ok_gsm)
  qed
  moreover have "no_orphans st2"
    using o by (auto simp: no_orphans_def st2_def session_exists_def dict_has_dict_del)
  ultimately show ?thesis by (simp add: eq inv_def)
qed

lemma inv_remove_memory:
  assumes "inv st"
  shows "inv (snd (handle_remove_memory args st))"
proof (cases "truthy (a_memory_id args) \<and> dict_get (memories st) (the (a_memory_id args)) \<noteq> None")
  case False
  with assms show ?thesis by (auto simp: handle_remove_memory_def Let_def)
next
  case True
  define mid where "mid = the (a_memory_id args)"
  from True obtain m where m: "dict_get (memories st) mid = Some m" by (auto simp: mid_def)
  define sid where "sid = m_session_id m"
  define st1 where "st1 = st\<lparr>memories := dict_del mid (memories st)\<rparr>"
  from assms have k: "keys_ok st" and c: "counts_ok st" and o: "no_orphans st"
    by (simp_all add: inv_def)
  have "update_session_memory_count sid st1 = st1" if "\<not> session_exists st1 sid"
    using that by (simp add: update_session_memory_count_def session_exists_def dict_get_has)
  with True m have eq: "snd (handle_remove_memory args st) = update_session_memory_count sid st1"
    by (simp add: handle_remove_memory_def Let_def mid_def sid_def st1_def)
  have k1: "keys_ok st1"
    using k by (auto simp: keys_ok_def st1_def distinct_map_filter dict_del_def)
  have only: "\<And>p. p \<in> set (memories st) \<Longrightarrow> fst p = mid \<Longrightarrow> m_session_id (snd p) = sid"
  proof -
    fix p assume "p \<in> set (memories st)" "fst p = mid"
    then have "(mid, snd p) \<in> set (memories st)" by (metis prod.collapse)
    moreover from k have "distinct (map fst (memories st))" by (simp add: keys_ok_def)
    ultimately have "dict_get (memories st) mid = Some (snd p)" by (rule dict_get_unique[rotated])
    with m show "m_session_id (snd p) = sid" by (simp add: sid_def)
  qed
  have g: "\<And>k. k \<noteq> sid \<Longrightarrow> get_session_memories st1 k = get_session_memories st k"
    using only
    by (auto simp: get_session_memories_def st1_def dict_values_def dict_del_def filter_map comp_def
        intro!: arg_cong[where f="map snd"] filter_cong)
  have "\<forall>p \<in> set (sessions st1). fst p \<noteq> sid \<longrightarrow>
       s_memory_count (snd p) = length (get_session_memories st1 (s_id (snd p)))"
  proof (intro ballI impI)
    fix p assume p: "p \<in> set (sessions st1)" "fst p \<noteq> sid"
    then have p': "p \<in> set (sessions st)" by (simp add: st1_def)
    with k have "s_id (snd p) = fst p" by (simp add: keys_ok_def)
    with p g have "get_session_memories st1 (s_id (snd p)) = get_session_memories st (s_id (snd p))"
      by simp
    with c p' show "s_memory_count (snd p) = length (get_session_memories st1 (s_id (snd p)))"
      by (simp add: counts_ok_gsm)
  qed
  with k1 have "counts_ok (update_session_memory_count sid st1)" by (rule counts_ok_usmc)
  moreover have "keys_ok (update_session_memory_count sid st1)" using k1 by (rule keys_ok_usmc)
  moreover have "no_orphans st1"
    using o by (auto simp: no_orphans_def st1_def session_exists_def dict_del_def)
  then have "no_orphans (update_session_memory_count sid st1)" by (rule no_orphans_usmc)
  ultimately show ?thesis by (simp add: eq inv_def)
qed


section \<open>Reachable states satisfy the invariant\<close>

lemma inv_init: "inv init"
  by (simp add: inv_def keys_ok_def counts_ok_gsm no_orphans_def init_def)

lemma inv_call_tool:
  "inv st \<Longrightarrow> fresh_id new_id st \<Longrightarrow> inv (snd (handle_call_tool U name args new_id now st))"
  by (simp add: handle_call_tool_def inv_create_session inv_add_memory inv_remove_memory
      inv_clear_session inv_delete_session)

lemma reachable_inv: "reachable st \<Longrightarrow> inv st"
  by (induction rule: reachable.induct) (simp_all add: inv_init inv_call_tool)

lemma dict_get_dict_set_other: "k' \<noteq> k \<Longrightarrow> dict_get (dict_set k v d) k' = dict_get d k'"
  by (induction d) (auto simp: dict_get_def)


section \<open>Derived counts and referential integrity\<close>

text \<open>Claim C1. In every state of the server, and after any further tool call (which covers
  \<open>create_session\<close>, \<open>add_memory\<close>, \<open>remove_memory\<close>, \<open>clear_session\<close> and
  \<open>delete_session\<close>), the \<open>memory_count\<close> of every stored session equals the number of
  entries of the memory store whose \<open>session_id\<close> is that session's id.\<close>

theorem memory_count_invariant:
  assumes "reachable st" "fresh_id new_id st"
  shows "(\<forall>p \<in> set (sessions st).
            s_memory_count (snd p)
              = length (filter (\<lambda>q. m_session_id (snd q) = s_id (snd p)) (memories st)))
     \<and> (\<forall>p \<in> set (sessions (snd (handle_call_tool U name args new_id now st))).
            s_memory_count (snd p)
              = length (filter (\<lambda>q. m_session_id (snd q) = s_id (snd p))
                          (memories (snd (handle_call_tool U name args new_id now st)))))"
proof -
  from assms(1) have "inv st" by (rule reachable_inv)
  moreover from this assms(2) have "inv (snd (handle_call_tool U name args new_id now st))"
    by (rule inv_call_tool)
  ultimately have "counts_ok st" "counts_ok (snd (handle_call_tool U name args new_id now st))"
    by (simp_all add: inv_def)
  then show ?thesis unfolding counts_ok_def by blast
qed

text \<open>Claim C2. No state of the server holds a memory whose session is missing. Deleting an
  existing session reports the number of its memories, removes the session and exactly the
  memories that reference it, leaves no orphan, and \<open>get_memories\<close> on the deleted id then
  answers that the session does not exist.\<close>

theorem delete_session_cascade:
  assumes "reachable st" "a_session_id args = Some sid" "sid \<noteq> []" "session_exists st sid"
  shows "no_orphans st
     \<and> fst (handle_delete_session args st)
         = SessionDeleted (session_name st sid) sid (length (get_session_memories st sid))
     \<and> \<not> session_exists (snd (handle_delete_session args st)) sid
     \<and> sessions (snd (handle_delete_session args st)) = dict_del sid (sessions st)
     \<and> memories (snd (handle_delete_session args st))
         = filter (\<lambda>p. m_session_id (snd p) \<noteq> sid) (memories st)
     \<and> no_orphans (snd (handle_delete_session args st))
     \<and> handle_get_memories args (snd (handle_delete_session args st)) = Error (SessionNotFound sid)"
proof -
  from assms(1) have i: "inv st" by (rule reachable_inv)
  then have k: "keys_ok st" by (simp add: inv_def)
  from assms have t: "truthy (a_session_id args)" "session_exists st (the (a_session_id args))"
    by simp_all
  note r = delete_session_result[OF k t]
  have n: "\<not> session_exists (snd (handle_delete_session args st)) sid"
    using assms(2) by (simp add: r session_exists_def dict_has_dict_del)
  have "inv (snd (handle_delete_session args st))" using i by (rule inv_delete_session)
  then have "no_orphans (snd (handle_delete_session args st))" by (simp add: inv_def)
  moreover have "handle_get_memories args (snd (handle_delete_session args st)) = Error (SessionNotFound sid)"
    using n assms(2,3) by (simp add: handle_get_memories_def)
  ultimately show ?thesis using i n assms(2) by (simp add: r inv_def)
qed

text \<open>Claim C8. Clearing an existing session removes exactly the memories that reference it and
  keeps every other memory in place; the session stays, with \<open>memory_count\<close> 0 and its
  other fields as they were, and every other session is unchanged.\<close>

theorem clear_session_frame:
  assumes "reachable st" "a_session_id args = Some sid" "sid \<noteq> []" "session_exists st sid"
  shows "fst (handle_clear_session args st)
         = SessionCleared (session_name st sid) sid (length (get_session_memories st sid))
     \<and> memories (snd (handle_clear_session args st))
         = filter (\<lambda>p. m_session_id (snd p) \<noteq> sid) (memories st)
     \<and> map fst (sessions (snd (handle_clear_session args st))) = map fst (sessions st)
     \<and> (\<exists>s. dict_get (sessions st) sid = Some s
            \<and> dict_get (sessions (snd (handle_clear_session args st))) sid
                = Some (s\<lparr>s_memory_count := 0\<rparr>))
     \<and> (\<forall>k. k \<noteq> sid \<longrightarrow>
            dict_get (sessions (snd (handle_clear_session args st))) k = dict_get (sessions st) k)"
proof -
  from assms(1) have "inv st" by (rule reachable_inv)
  then have k: "keys_ok st" by (simp add: inv_def)
  from assms have t: "truthy (a_session_id args)" "session_exists st (the (a_session_id args))"
    by simp_all
  note r = clear_session_result[OF k t]
  from assms(4) obtain s where s: "dict_get (sessions st) sid = Some s"
    by (auto simp: session_exists_def dict_get_has)
  have "dict_get (sessions (snd (handle_clear_session args st))) sid = Some (s\<lparr>s_memory_count := 0\<rparr>)"
    using assms(2) s
    by (simp add: r update_session_memory_count_def gsm_filter_same dict_get_dict_set_same)
  moreover have "\<forall>k. k \<noteq> sid \<longrightarrow>
      dict_get (sessions (snd (handle_clear_session args st))) k = dict_get (sessions st) k"
    using assms(2) s
    by (simp add: r update_session_memory_count_def dict_get_dict_set_other)
  ultimately show ?thesis using assms(2) s by (simp add: r)
qed


section \<open>Whitespace\<close>

text \<open>\<open>strip\<close> leaves nothing exactly of the strings made of whitespace only; in general it
  removes a whitespace prefix and a whitespace suffix and leaves a string that neither
  starts nor ends with whitespace.\<close>

lemma strip_empty_iff: "strip s = [] \<longleftrightarrow> (\<forall>c \<in> set s. is_space c)"
proof -
  have "strip s = [] \<longleftrightarrow> dropWhile is_space (rev (dropWhile is_space s)) = []"
    by (simp add: strip_def)
  also have "\<dots> \<longleftrightarrow> (\<forall>c \<in> set (dropWhile is_space s). is_space c)"
    by (simp add: dropWhile_eq_Nil_conv)
  also have "\<dots> \<longleftrightarrow> dropWhile is_space s = []"
  proof
    assume a: "\<forall>c \<in> set (dropWhile is_space s). is_space c"
    show "dropWhile is_space s = []"
    proof (rule ccontr)
      assume "dropWhile is_space s \<noteq> []"
      then have "\<not> is_space (hd (dropWhile is_space s))" by (rule hd_dropWhile)
      moreover from \<open>dropWhile is_space s \<noteq> []\<close>
      have "hd (dropWhile is_space s) \<in> set (dropWhile is_space s)" by simp
      ultimately show False using a by blast
    qed
  qed (auto dest: set_dropWhileD)
  also have "\<dots> \<longleftrightarrow> (\<forall>c \<in> set s. is_space c)"
    by (simp add: dropWhile_eq_Nil_conv)
  finally show ?thesis .
qed

lemma strip_decomp:
  "\<exists>pre post. s = pre @ strip s @ post \<and> (\<forall>c \<in> set pre. is_space c) \<and> (\<forall>c \<in> set post. is_space c)"
proof -
  define d where "d = dropWhile is_space s"
  have 1: "s = takeWhile is_space s @ d" by (simp add: d_def)
  have "d = rev (takeWhile is_space (rev d) @ dropWhile is_space (rev d))"
    by (simp only: takeWhile_dropWhile_id rev_rev_ident)
  also have "\<dots> = rev (dropWhile is_space (rev d)) @ rev (takeWhile is_space (rev d))"
    by (simp only: rev_append)
  finally have 2: "d = strip s @ rev (takeWhile is_space (rev d))"
    by (simp only: strip_def d_def)
  have "s = takeWhile is_space s @ strip s @ rev (takeWhile is_space (rev d))"
    using 1 2 by simp
  moreover have "\<forall>c \<in> set (takeWhile is_space s). is_space c"
    by (auto dest: set_takeWhileD)
  moreover have "\<forall>c \<in> set (rev (takeWhile is_space (rev d))). is_space c"
    by (auto dest: set_takeWhileD)
  ultimately show ?thesis by blast
qed

lemma strip_ends:
  assumes "strip s \<noteq> []"
  shows "\<not> is_space (hd (strip s)) \<and> \<not> is_space (last (strip s))"
proof -
  define d where "d = dropWhile is_space s"
  define e where "e = dropWhile is_space (rev d)"
  have st: "strip s = rev e" by (simp add: strip_def d_def e_def)
  with assms have e: "e \<noteq> []" by simp
  then have "rev d \<noteq> []" by (auto simp: e_def)
  then have d: "d \<noteq> []" by simp
  have "\<not> is_space (hd e)" unfolding e_def using e[unfolded e_def] by (rule hd_dropWhile)
  then have l: "\<not> is_space (last (strip s))" using e by (simp add: st last_rev)
  have "rev d = takeWhile is_space (rev d) @ e" by (simp add: e_def)
  then have "last (rev d) = last e" using e by (metis last_appendR)
  then have "last e = hd d" using d by (simp add: last_rev)
  moreover have "\<not> is_space (hd d)" unfolding d_def using d[unfolded d_def] by (rule hd_dropWhile)
  ultimately have "\<not> is_space (hd (strip s))" using e by (simp add: st hd_rev)
  with l show ?thesis by simp
qed

lemma blank_iff:
  "blank x \<longleftrightarrow> (case x of None \<Rightarrow> True | Some s \<Rightarrow> \<forall>c \<in> set s. is_space c)"
  by (cases x) (auto simp: strip_empty_iff)


section \<open>The example states\<close>

lemma reachable_ex_st1: "reachable ex_st1"
proof -
  have e: "ex_st1 = snd (handle_call_tool ex_unicode (ascii ''create_session'') ex_create_args
      (ascii ''s1'') (ascii ''t0'') init)"
    by code_simp
  have f: "fresh_id (ascii ''s1'') init" by code_simp
  show ?thesis unfolding e by (rule reachable_step[OF reachable_init f])
qed

lemma reachable_ex_st2: "reachable ex_st2"
proof -
  have e: "ex_st2 = snd (handle_call_tool ex_unicode (ascii ''add_memory'') ex_add_args
      (ascii ''m1'') (ascii ''t1'') ex_st1)"
    by code_simp
  have f: "fresh_id (ascii ''m1'') ex_st1" by code_simp
  show ?thesis unfolding e by (rule reachable_step[OF reachable_ex_st1 f])
qed

lemma reachable_ex_st3: "reachable ex_st3"
proof -
  have e: "ex_st3 = snd (handle_call_tool ex_unicode (ascii ''create_session'') ex_create_args2
      (ascii ''s2'') (ascii ''t2'') ex_st2)"
    by code_simp
  have f: "fresh_id (ascii ''s2'') ex_st2" by code_simp
  show ?thesis unfolding e by (rule reachable_step[OF reachable_ex_st2 f])
qed


section \<open>Validation and errors\<close>

text \<open>Claim C5. \<open>add_memory\<close> checks the session id, then the content, then the existence of
  the session; the first failing check decides the error. In particular blank content with
  the id of a missing session is reported as empty content. Content is blank when it is
  missing or holds whitespace characters only.\<close>

theorem add_memory_check_order:
  "(\<not> truthy (a_session_id args) \<longrightarrow>
      fst (handle_add_memory new_id now args st) = Error EmptySessionId)
   \<and> (truthy (a_session_id args) \<and> blank (a_content args) \<longrightarrow>
      fst (handle_add_memory new_id now args st) = Error EmptyContent)
   \<and> (truthy (a_session_id args) \<and> \<not> blank (a_content args)
        \<and> \<not> session_exists st (the (a_session_id args)) \<longrightarrow>
      fst (handle_add_memory new_id now args st) = Error (SessionNotFound (the (a_session_id args))))
   \<and> (truthy (a_session_id args) \<and> \<not> blank (a_content args)
        \<and> session_exists st (the (a_session_id args)) \<longrightarrow>
      (\<forall>e. fst (handle_add_memory new_id now args st) \<noteq> Error e))
   \<and> (blank (a_content args) \<longleftrightarrow>
        (case a_content args of None \<Rightarrow> True | Some s \<Rightarrow> \<forall>c \<in> set s. is_space c))"
  by (simp add: handle_add_memory_def Let_def blank_iff)

text \<open>Claim C6. A mutating handler that answers with a validation or not-found error returns the
  state it was given; \<open>create_session\<close> with a name that is missing, empty or made of
  whitespace characters only answers \<open>EmptyName\<close> and stores nothing.\<close>

theorem errors_leave_stores_unchanged:
  "(fst (handle_create_session new_id now args st) = Error e \<longrightarrow>
      snd (handle_create_session new_id now args st) = st)
   \<and> (fst (handle_add_memory new_id now args st) = Error e \<longrightarrow>
      snd (handle_add_memory new_id now args st) = st)
   \<and> (fst (handle_remove_memory args st) = Error e \<longrightarrow>
      snd (handle_remove_memory args st) = st)
   \<and> (fst (handle_clear_session args st) = Error e \<longrightarrow>
      snd (handle_clear_session args st) = st)
   \<and> (fst (handle_delete_session args st) = Error e \<longrightarrow>
      snd (handle_delete_session args st) = st)
   \<and> (blank (a_name args) \<longrightarrow>
      handle_create_session new_id now args st = (Error EmptyName, st))
   \<and> (blank (a_name args) \<longleftrightarrow>
        (case a_name args of None \<Rightarrow> True | Some s \<Rightarrow> \<forall>c \<in> set s. is_space c))"
proof -
  have "(fst (handle_create_session new_id now args st) = Error e \<longrightarrow>
      snd (handle_create_session new_id now args st) = st)
   \<and> (fst (handle_add_memory new_id now args st) = Error e \<longrightarrow>
      snd (handle_add_memory new_id now args st) = st)
   \<and> (fst (handle_remove_memory args st) = Error e \<longrightarrow>
      snd (handle_remove_memory args st) = st)
   \<and> (fst (handle_clear_session args st) = Error e \<longrightarrow>
      snd (handle_clear_session args st) = st)
   \<and> (fst (handle_delete_session args st) = Error e \<longrightarrow>
      snd (handle_delete_session args st) = st)
   \<and> (blank (a_name args) \<longrightarrow>
      handle_create_session new_id now args st = (Error EmptyName, st))"
    by (auto simp: handle_create_session_def handle_add_memory_def handle_remove_memory_def
        handle_clear_session_def handle_delete_session_def Let_def
        split: option.splits sum.splits prod.splits if_splits)
  then show ?thesis using blank_iff[of "a_name args"] by blast
qed

text \<open>Claim C10. A search with \<open>session_id = ""\<close> behaves as a search without
  \<open>session_id\<close>: it never answers that the session does not exist, and for a non-blank query
  the results are the matching memories of all sessions.\<close>

theorem search_empty_session_id_is_omitted:
  "handle_search_memories U (args\<lparr>a_session_id := Some []\<rparr>) st
     = handle_search_memories U (args\<lparr>a_session_id := None\<rparr>) st
   \<and> handle_search_memories U (args\<lparr>a_session_id := Some []\<rparr>) st \<noteq> Error (SessionNotFound sid)
   \<and> (\<not> blank (a_query args) \<longrightarrow>
        (case handle_search_memories U (args\<lparr>a_session_id := Some []\<rparr>) st of
           SearchResults q scope tf rs \<Rightarrow>
             scope = None
             \<and> map r_memory rs = sort_reverse m_created_at
                  (filter (memory_matches U (lower U (strip q)) tf) (dict_values (memories st)))
         | Raised e \<Rightarrow> e = TemplateError
         | _ \<Rightarrow> False))"
  by (auto simp: handle_search_memories_def Let_def render_results_memories
      split: sum.splits option.splits dest: render_results_error)


section \<open>The theorems at the example states\<close>

text \<open>C1 at the example with two sessions: the counts are 1 and 0, and 2 and 0 after a memory
  is added to the first session.\<close>

theorem memory_count_invariant_witness:
  "reachable ex_st3 \<and> fresh_id (ascii ''m2'') ex_st3
   \<and> map (\<lambda>p. s_memory_count (snd p)) (sessions ex_st3) = [1, 0]
   \<and> map (\<lambda>p. length (filter (\<lambda>q. m_session_id (snd q) = s_id (snd p)) (memories ex_st3)))
        (sessions ex_st3) = [1, 0]
   \<and> map (\<lambda>p. s_memory_count (snd p)) (sessions ex_st4) = [2, 0]
   \<and> map (\<lambda>p. length (filter (\<lambda>q. m_session_id (snd q) = s_id (snd p)) (memories ex_st4)))
        (sessions ex_st4) = [2, 0]"
proof -
  have f: "fresh_id (ascii ''m2'') ex_st3" by code_simp
  have v: "map (\<lambda>p. s_memory_count (snd p)) (sessions ex_st3) = [1, 0]"
    "map (\<lambda>p. s_memory_count (snd p)) (sessions ex_st4) = [2, 0]"
    by code_simp+
  from memory_count_invariant[OF reachable_ex_st3 f, of ex_unicode "ascii ''add_memory''"
      ex_add_args "ascii ''t3''"]
  have "map (\<lambda>p. s_memory_count (snd p)) (sessions ex_st3)
        = map (\<lambda>p. length (filter (\<lambda>q. m_session_id (snd q) = s_id (snd p)) (memories ex_st3)))
            (sessions ex_st3)"
    and "map (\<lambda>p. s_memory_count (snd p)) (sessions ex_st4)
        = map (\<lambda>p. length (filter (\<lambda>q. m_session_id (snd q) = s_id (snd p)) (memories ex_st4)))
            (sessions ex_st4)"
    unfolding ex_st4_def by simp_all
  with v reachable_ex_st3 f show ?thesis by simp
qed

text \<open>C2 at the example state.\<close>

theorem delete_session_cascade_witness:
  "reachable ex_st2 \<and> a_session_id ex_sid_args = Some (ascii ''s1'') \<and> ascii ''s1'' \<noteq> []
   \<and> session_exists ex_st2 (ascii ''s1'') \<and> no_orphans ex_st2
   \<and> fst (handle_delete_session ex_sid_args ex_st2) = SessionDeleted (ascii ''proj'') (ascii ''s1'') 1
   \<and> memories (snd (handle_delete_session ex_sid_args ex_st2)) = []
   \<and> handle_get_memories ex_sid_args (snd (handle_delete_session ex_sid_args ex_st2))
       = Error (SessionNotFound (ascii ''s1''))"
proof -
  have a: "a_session_id ex_sid_args = Some (ascii ''s1'')" by code_simp
  have n: "ascii ''s1'' \<noteq> []" by code_simp
  have e: "session_exists ex_st2 (ascii ''s1'')" by code_simp
  have v: "session_name ex_st2 (ascii ''s1'') = ascii ''proj''"
    "length (get_session_memories ex_st2 (ascii ''s1'')) = 1"
    "filter (\<lambda>p. m_session_id (snd p) \<noteq> ascii ''s1'') (memories ex_st2) = []"
    by code_simp+
  show ?thesis
    using delete_session_cascade[OF reachable_ex_st2 a n e] reachable_ex_st2 a n e
    by (simp add: v)
qed

text \<open>C8 at the example state.\<close>

theorem clear_session_frame_witness:
  "reachable ex_st2 \<and> a_session_id ex_sid_args = Some (ascii ''s1'') \<and> ascii ''s1'' \<noteq> []
   \<and> session_exists ex_st2 (ascii ''s1'')
   \<and> fst (handle_clear_session ex_sid_args ex_st2) = SessionCleared (ascii ''proj'') (ascii ''s1'') 1
   \<and> memories (snd (handle_clear_session ex_sid_args ex_st2)) = []
   \<and> map fst (sessions (snd (handle_clear_session ex_sid_args ex_st2))) = [ascii ''s1'']"
proof -
  have a: "a_session_id ex_sid_args = Some (ascii ''s1'')" by code_simp
  have n: "ascii ''s1'' \<noteq> []" by code_simp
  have e: "session_exists ex_st2 (ascii ''s1'')" by code_simp
  have v: "session_name ex_st2 (ascii ''s1'') = ascii ''proj''"
    "length (get_session_memories ex_st2 (ascii ''s1'')) = 1"
    "filter (\<lambda>p. m_session_id (snd p) \<noteq> ascii ''s1'') (memories ex_st2) = []"
    "map fst (sessions ex_st2) = [ascii ''s1'']"
    by code_simp+
  show ?thesis
    using clear_session_frame[OF reachable_ex_st2 a n e] reachable_ex_st2 a n e
    by (simp add: v)
qed

text \<open>C5 at inputs that reach each of the four branches, with content made of every whitespace
  character; no neighbour of a whitespace character is blank.\<close>

theorem add_memory_check_order_witness:
  "\<not> truthy (a_session_id ex_no_sid_args) \<and> blank (a_content ex_no_sid_args)
   \<and> fst (handle_add_memory (ascii ''m9'') (ascii ''t9'') ex_no_sid_args ex_st2) = Error EmptySessionId
   \<and> truthy (a_session_id ex_blank_args) \<and> blank (a_content ex_blank_args)
   \<and> \<not> session_exists ex_st2 (ascii ''zz'')
   \<and> fst (handle_add_memory (ascii ''m9'') (ascii ''t9'') ex_blank_args ex_st2) = Error EmptyContent
   \<and> truthy (a_session_id ex_missing_args) \<and> \<not> blank (a_content ex_missing_args)
   \<and> fst (handle_add_memory (ascii ''m9'') (ascii ''t9'') ex_missing_args ex_st2)
       = Error (SessionNotFound (ascii ''zz''))
   \<and> truthy (a_session_id ex_add_args) \<and> \<not> blank (a_content ex_add_args)
   \<and> session_exists ex_st2 (the (a_session_id ex_add_args))
   \<and> fst (handle_add_memory (ascii ''m9'') (ascii ''t9'') ex_add_args ex_st2) \<noteq> Error EmptyContent
   \<and> list_all is_space whitespace_only
   \<and> list_all (\<lambda>c. \<not> blank (Some [c])) not_whitespace"
proof -
  have h1: "\<not> truthy (a_session_id ex_no_sid_args)" "blank (a_content ex_no_sid_args)"
    by code_simp+
  have h2: "truthy (a_session_id ex_blank_args)" "blank (a_content ex_blank_args)"
    "\<not> session_exists ex_st2 (ascii ''zz'')"
    by code_simp+
  have h3: "truthy (a_session_id ex_missing_args)" "\<not> blank (a_content ex_missing_args)"
    "\<not> session_exists ex_st2 (the (a_session_id ex_missing_args))"
    "the (a_session_id ex_missing_args) = ascii ''zz''"
    by code_simp+
  have h4: "truthy (a_session_id ex_add_args)" "\<not> blank (a_content ex_add_args)"
    "session_exists ex_st2 (the (a_session_id ex_add_args))"
    by code_simp+
  have w: "list_all is_space whitespace_only"
    "list_all (\<lambda>c. \<not> blank (Some [c])) not_whitespace"
    by code_simp+
  have c1: "fst (handle_add_memory (ascii ''m9'') (ascii ''t9'') ex_no_sid_args ex_st2)
      = Error EmptySessionId"
    using add_memory_check_order[of ex_no_sid_args "ascii ''m9''" "ascii ''t9''" ex_st2] h1
    by blast
  have c2: "fst (handle_add_memory (ascii ''m9'') (ascii ''t9'') ex_blank_args ex_st2)
      = Error EmptyContent"
    using add_memory_check_order[of ex_blank_args "ascii ''m9''" "ascii ''t9''" ex_st2] h2
    by blast
  have c3: "fst (handle_add_memory (ascii ''m9'') (ascii ''t9'') ex_missing_args ex_st2)
      = Error (SessionNotFound (ascii ''zz''))"
    using add_memory_check_order[of ex_missing_args "ascii ''m9''" "ascii ''t9''" ex_st2] h3
    by metis
  have c4: "fst (handle_add_memory (ascii ''m9'') (ascii ''t9'') ex_add_args ex_st2)
      \<noteq> Error EmptyContent"
    using add_memory_check_order[of ex_add_args "ascii ''m9''" "ascii ''t9''" ex_st2] h4
    by blast
  show ?thesis using h1 h2 h3(1,2) h4 w c1 c2 c3 c4 by blast
qed

text \<open>C6 at an erroneous input of each mutating handler, on a state that holds a session and a
  memory.\<close>

theorem errors_leave_stores_unchanged_witness:
  "blank (a_name ex_blank_name_args)
   \<and> handle_create_session (ascii ''s9'') (ascii ''t9'') ex_blank_name_args ex_st2
       = (Error EmptyName, ex_st2)
   \<and> fst (handle_add_memory (ascii ''m9'') (ascii ''t9'') ex_blank_args ex_st2) = Error EmptyContent
   \<and> snd (handle_add_memory (ascii ''m9'') (ascii ''t9'') ex_blank_args ex_st2) = ex_st2
   \<and> fst (handle_remove_memory ex_missing_memory_args ex_st2) = Error (MemoryNotFound (ascii ''zz''))
   \<and> snd (handle_remove_memory ex_missing_memory_args ex_st2) = ex_st2
   \<and> fst (handle_clear_session ex_blank_args ex_st2) = Error (SessionNotFound (ascii ''zz''))
   \<and> snd (handle_clear_session ex_blank_args ex_st2) = ex_st2
   \<and> fst (handle_delete_session no_args ex_st2) = Error EmptySessionId
   \<and> snd (handle_delete_session no_args ex_st2) = ex_st2
   \<and> sessions ex_st2 \<noteq> [] \<and> memories ex_st2 \<noteq> []
   \<and> list_all is_space whitespace_only
   \<and> list_all (\<lambda>c. \<not> blank (Some [c])) not_whitespace"
proof -
  have h: "blank (a_name ex_blank_name_args)"
    "fst (handle_add_memory (ascii ''m9'') (ascii ''t9'') ex_blank_args ex_st2) = Error EmptyContent"
    "fst (handle_remove_memory ex_missing_memory_args ex_st2) = Error (MemoryNotFound (ascii ''zz''))"
    "fst (handle_clear_session ex_blank_args ex_st2) = Error (SessionNotFound (ascii ''zz''))"
    "fst (handle_delete_session no_args ex_st2) = Error EmptySessionId"
    "sessions ex_st2 \<noteq> []" "memories ex_st2 \<noteq> []"
    "list_all is_space whitespace_only"
    "list_all (\<lambda>c. \<not> blank (Some [c])) not_whitespace"
    by code_simp+
  have c1: "handle_create_session (ascii ''s9'') (ascii ''t9'') ex_blank_name_args ex_st2
      = (Error EmptyName, ex_st2)"
    using errors_leave_stores_unchanged[of "ascii ''s9''" "ascii ''t9''" ex_blank_name_args ex_st2]
      h(1) by blast
  have c2: "snd (handle_add_memory (ascii ''m9'') (ascii ''t9'') ex_blank_args ex_st2) = ex_st2"
    using errors_leave_stores_unchanged[of "ascii ''m9''" "ascii ''t9''" ex_blank_args ex_st2
        EmptyContent] h(2) by blast
  have c3: "snd (handle_remove_memory ex_missing_memory_args ex_st2) = ex_st2"
    using errors_leave_stores_unchanged[of "ascii ''m9''" "ascii ''t9''" ex_missing_memory_args
        ex_st2 "MemoryNotFound (ascii ''zz'')"] h(3) by blast
  have c4: "snd (handle_clear_session ex_blank_args ex_st2) = ex_st2"
    using errors_leave_stores_unchanged[of "ascii ''m9''" "ascii ''t9''" ex_blank_args ex_st2
        "SessionNotFound (ascii ''zz'')"] h(4) by blast
  have c5: "snd (handle_delete_session no_args ex_st2) = ex_st2"
    using errors_leave_stores_unchanged[of "ascii ''m9''" "ascii ''t9''" no_args ex_st2
        EmptySessionId] h(5) by blast
  show ?thesis using h c1 c2 c3 c4 c5 by blast
qed

text \<open>C10 at the example state.\<close>

theorem search_empty_session_id_is_omitted_witness:
  "\<not> blank (a_query ex_search_args)
   \<and> handle_search_memories ex_unicode (ex_search_args\<lparr>a_session_id := Some []\<rparr>) ex_st2
       = SearchResults (ascii ''APP'') None []
           [\<lparr>r_memory = ex_memory1, r_session_name = ascii ''proj'',
             r_highlighted = ascii ''Build an **APP**''\<rparr>]
   \<and> handle_search_memories ex_unicode (ex_search_args\<lparr>a_session_id := None\<rparr>) ex_st2
       = handle_search_memories ex_unicode (ex_search_args\<lparr>a_session_id := Some []\<rparr>) ex_st2"
proof -
  have h: "\<not> blank (a_query ex_search_args)"
    "handle_search_memories ex_unicode (ex_search_args\<lparr>a_session_id := Some []\<rparr>) ex_st2
       = SearchResults (ascii ''APP'') None []
           [\<lparr>r_memory = ex_memory1, r_session_name = ascii ''proj'',
             r_highlighted = ascii ''Build an **APP**''\<rparr>]"
    by code_simp+
  show ?thesis
    using search_empty_session_id_is_omitted[of ex_unicode ex_search_args ex_st2] h by simp
qed


section \<open>Round trip and ordering of retrieval\<close>

lemma strip_Nil: "strip [] = []"
  by (simp add: strip_def)

lemma values_after_set:
  "P v \<Longrightarrow> filter P (map snd d) = [] \<Longrightarrow> filter P (map snd (dict_set k v d)) = [v]"
  by (induction d) (auto split: if_splits)

lemma entries_after_set:
  "P v \<Longrightarrow> \<forall>p \<in> set d. \<not> P (snd p) \<Longrightarrow>
   filter (\<lambda>p. P (snd p)) (dict_set k v d) = [(k, v)]"
  by (induction d) auto

lemma mset_sort_reverse: "mset (sort_reverse f xs) = mset xs"
  by (simp add: sort_reverse_def)

lemma sorted_sort_reverse: "sorted_wrt (\<lambda>a b. f b \<le> f a) (sort_reverse f xs)"
proof -
  have "sorted (map f (sort_key f (rev xs)))" by (rule sorted_sort_key)
  then have "sorted_wrt (\<lambda>a b. f a \<le> f b) (sort_key f (rev xs))" by (simp add: sorted_map)
  then show ?thesis by (simp add: sort_reverse_def sorted_wrt_rev)
qed

lemma stable_sort_reverse:
  "filter (\<lambda>x. f x = k) (sort_reverse f xs) = filter (\<lambda>x. f x = k) xs"
proof -
  have "filter (\<lambda>x. f x = k) (sort_reverse f xs)
        = rev (filter (\<lambda>x. f x = k) (sort_key f (rev xs)))"
    by (simp add: sort_reverse_def rev_filter)
  also have "\<dots> = rev (filter (\<lambda>x. f x = k) (rev xs))" by (simp only: sort_key_stable)
  also have "\<dots> = filter (\<lambda>x. f x = k) xs" by (simp add: rev_filter)
  finally show ?thesis .
qed

lemma sort_reverse_Nil: "sort_reverse f [] = []"
  by (simp add: sort_reverse_def)

text \<open>Claim C7. Let no stored memory reference an existing session, and let the content hold a
  character that is not whitespace. After \<open>add_memory\<close>, \<open>get_memories\<close> on that session
  returns exactly one memory, the only entry of the store that references the session; its
  content is the supplied content without its leading and trailing whitespace, and its
  tags are the supplied list, unchanged and in order (the empty list when no tags were
  supplied).\<close>

theorem add_then_get_roundtrip:
  assumes "a_session_id args = Some sid" "sid \<noteq> []" "session_exists st sid"
    and "a_content args = Some content" "\<exists>c \<in> set content. \<not> is_space c"
    and "\<forall>p \<in> set (memories st). m_session_id (snd p) \<noteq> sid"
    and "a_session_id gargs = Some sid"
  shows "\<exists>m. handle_get_memories gargs (snd (handle_add_memory new_id now args st))
            = Memories (session_name st sid) sid [m]
          \<and> filter (\<lambda>p. m_session_id (snd p) = sid)
               (memories (snd (handle_add_memory new_id now args st))) = [(new_id, m)]
          \<and> m_content m = strip content
          \<and> (\<exists>pre post. content = pre @ m_content m @ post
                \<and> (\<forall>c \<in> set pre. is_space c) \<and> (\<forall>c \<in> set post. is_space c))
          \<and> \<not> is_space (hd (m_content m)) \<and> \<not> is_space (last (m_content m))
          \<and> m_tags m = (case a_tags args of None \<Rightarrow> [] | Some ts \<Rightarrow> ts)
          \<and> m_session_id m = sid \<and> m_id m = new_id"
proof -
  define m where "m = \<lparr>m_id = new_id, m_session_id = sid, m_content = strip content,
      m_created_at = now, m_tags = (case a_tags args of None \<Rightarrow> [] | Some ts \<Rightarrow> ts)\<rparr>"
  define st1 where "st1 = st\<lparr>memories := dict_set new_id m (memories st)\<rparr>"
  define st2 where "st2 = update_session_memory_count sid st1"
  from assms(5) have sne: "strip content \<noteq> []" by (simp add: strip_empty_iff)
  then have c: "content \<noteq> []" using strip_Nil by auto
  with sne assms have eq: "snd (handle_add_memory new_id now args st) = st2"
    by (simp add: handle_add_memory_def Let_def m_def st1_def st2_def)
  have none: "filter (\<lambda>x. m_session_id x = sid) (map snd (memories st)) = []"
    using assms(6) by (auto simp: filter_empty_conv)
  have g: "get_session_memories st2 sid = [m]"
    using none
    by (simp add: st2_def st1_def get_session_memories_def dict_values_def values_after_set m_def)
  have f: "filter (\<lambda>p. m_session_id (snd p) = sid) (memories st2) = [(new_id, m)]"
    using assms(6)
    by (simp add: st2_def st1_def m_def entries_after_set[where P="\<lambda>x. m_session_id x = sid"])
  from assms(3) obtain s where s: "dict_get (sessions st) sid = Some s"
    by (auto simp: session_exists_def dict_get_has)
  then have n: "session_name st2 sid = session_name st sid"
    by (simp add: st2_def st1_def session_name_def update_session_memory_count_def
        dict_get_dict_set_same)
  have "session_exists st1 sid"
    using assms(3) by (simp add: st1_def session_exists_def)
  then have e: "session_exists st2 sid" by (simp add: st2_def)
  have "handle_get_memories gargs st2 = Memories (session_name st sid) sid [m]"
    using assms(2,7) e g n by (simp add: handle_get_memories_def Let_def sort_reverse_def)
  moreover have "m_content m = strip content" "m_session_id m = sid" "m_id m = new_id"
    "m_tags m = (case a_tags args of None \<Rightarrow> [] | Some ts \<Rightarrow> ts)"
    by (simp_all add: m_def)
  moreover have "\<exists>pre post. content = pre @ m_content m @ post
      \<and> (\<forall>c \<in> set pre. is_space c) \<and> (\<forall>c \<in> set post. is_space c)"
    using strip_decomp[of content] by (simp add: m_def)
  moreover have "\<not> is_space (hd (m_content m)) \<and> \<not> is_space (last (m_content m))"
    using strip_ends[OF sne] by (simp add: m_def)
  ultimately show ?thesis unfolding eq using f by blast
qed

text \<open>Claim C4, as the code has it. \<open>get_memories\<close> on an existing session returns all memories
  of the session, sorted by \<open>created_at\<close> descending; memories with equal
  \<open>created_at\<close> keep their insertion order, the one inserted earlier first.\<close>

theorem get_memories_order:
  assumes "a_session_id args = Some sid" "sid \<noteq> []" "session_exists st sid"
  shows "\<exists>ms. handle_get_memories args st = Memories (session_name st sid) sid ms
          \<and> mset ms = mset (get_session_memories st sid)
          \<and> sorted_wrt (\<lambda>a b. m_created_at b \<le> m_created_at a) ms
          \<and> (\<forall>t. filter (\<lambda>m. m_created_at m = t) ms
                 = filter (\<lambda>m. m_created_at m = t) (get_session_memories st sid))"
proof -
  have "handle_get_memories args st
        = Memories (session_name st sid) sid (sort_reverse m_created_at (get_session_memories st sid))"
    using assms by (simp add: handle_get_memories_def Let_def sort_reverse_Nil)
  then show ?thesis
    by (simp add: mset_sort_reverse sorted_sort_reverse stable_sort_reverse)
qed

text \<open>Claim C4 as stated fails on a tie: of two memories of one session with equal
  \<open>created_at\<close>, the one inserted first is returned first, not the one inserted later.\<close>

theorem get_memories_tie_counterexample:
  "dict_values (memories tie_state) = [tie_first, tie_second]
   \<and> m_created_at tie_first = m_created_at tie_second
   \<and> handle_get_memories ex_sid_args tie_state
       = Memories (ascii ''proj'') (ascii ''s1'') [tie_first, tie_second]"
  by code_simp

text \<open>C4 at the state with the tie.\<close>

theorem get_memories_order_witness:
  "a_session_id ex_sid_args = Some (ascii ''s1'') \<and> ascii ''s1'' \<noteq> []
   \<and> session_exists tie_state (ascii ''s1'')
   \<and> (\<exists>ms. handle_get_memories ex_sid_args tie_state = Memories (ascii ''proj'') (ascii ''s1'') ms
          \<and> mset ms = mset [tie_first, tie_second]
          \<and> filter (\<lambda>m. m_created_at m = ascii ''t1'') ms = [tie_first, tie_second])"
proof -
  have a: "a_session_id ex_sid_args = Some (ascii ''s1'')" by code_simp
  have n: "ascii ''s1'' \<noteq> []" by code_simp
  have e: "session_exists tie_state (ascii ''s1'')" by code_simp
  have v: "session_name tie_state (ascii ''s1'') = ascii ''proj''"
    "get_session_memories tie_state (ascii ''s1'') = [tie_first, tie_second]"
    "m_created_at tie_first = ascii ''t1''" "m_created_at tie_second = ascii ''t1''"
    by code_simp+
  show ?thesis
    using get_memories_order[OF a n e] a n e by (auto simp: v)
qed

text \<open>C7 at the empty second session, while the first session holds a memory; the content
  carries Unicode whitespace at both ends.\<close>

theorem add_then_get_roundtrip_witness:
  "a_session_id ex_add_args2 = Some (ascii ''s2'') \<and> ascii ''s2'' \<noteq> []
   \<and> session_exists ex_st3 (ascii ''s2'')
   \<and> a_content ex_add_args2 = Some ([160, 9] @ ascii ''Buy milk'' @ [8232, 32])
   \<and> list_ex (\<lambda>c. \<not> is_space c) ([160, 9] @ ascii ''Buy milk'' @ [8232, 32])
   \<and> list_all (\<lambda>p. m_session_id (snd p) \<noteq> ascii ''s2'') (memories ex_st3)
   \<and> memories ex_st3 \<noteq> []
   \<and> a_session_id ex_sid_args2 = Some (ascii ''s2'')
   \<and> handle_get_memories ex_sid_args2
        (snd (handle_add_memory (ascii ''m2'') (ascii ''t3'') ex_add_args2 ex_st3))
       = Memories (ascii ''notes'') (ascii ''s2'') [ex_memory2]
   \<and> length (memories (snd (handle_add_memory (ascii ''m2'') (ascii ''t3'') ex_add_args2 ex_st3))) = 2"
proof -
  have a: "a_session_id ex_add_args2 = Some (ascii ''s2'')" by code_simp
  have n: "ascii ''s2'' \<noteq> []" by code_simp
  have e: "session_exists ex_st3 (ascii ''s2'')" by code_simp
  have c: "a_content ex_add_args2 = Some ([160, 9] @ ascii ''Buy milk'' @ [8232, 32])" by code_simp
  have s': "list_ex (\<lambda>c. \<not> is_space c) ([160, 9] @ ascii ''Buy milk'' @ [8232, 32])" by code_simp
  then have s: "\<exists>c \<in> set ([160, 9] @ ascii ''Buy milk'' @ [8232, 32]). \<not> is_space c"
    by (simp only: list_ex_iff)
  have g': "list_all (\<lambda>p. m_session_id (snd p) \<noteq> ascii ''s2'') (memories ex_st3)" by code_simp
  then have g: "\<forall>p \<in> set (memories ex_st3). m_session_id (snd p) \<noteq> ascii ''s2''"
    by (simp only: list_all_iff)
  have b: "a_session_id ex_sid_args2 = Some (ascii ''s2'')" by code_simp
  have v: "session_name ex_st3 (ascii ''s2'') = ascii ''notes''"
    "strip ([160, 9] @ ascii ''Buy milk'' @ [8232, 32]) = ascii ''Buy milk''"
    "a_tags ex_add_args2 = Some [ascii ''todo'']" "memories ex_st3 \<noteq> []"
    "length (memories (snd (handle_add_memory (ascii ''m2'') (ascii ''t3'') ex_add_args2 ex_st3))) = 2"
    by code_simp+
  from add_then_get_roundtrip[OF a n e c s g b, of "ascii ''m2''" "ascii ''t3''"]
  obtain m where m: "handle_get_memories ex_sid_args2
        (snd (handle_add_memory (ascii ''m2'') (ascii ''t3'') ex_add_args2 ex_st3))
       = Memories (session_name ex_st3 (ascii ''s2'')) (ascii ''s2'') [m]"
    "m_content m = strip ([160, 9] @ ascii ''Buy milk'' @ [8232, 32])"
    "m_tags m = (case a_tags ex_add_args2 of None \<Rightarrow> [] | Some ts \<Rightarrow> ts)"
    "m_session_id m = ascii ''s2''" "m_id m = ascii ''m2''"
    by blast
  have k: "handle_get_memories ex_sid_args2
        (snd (handle_add_memory (ascii ''m2'') (ascii ''t3'') ex_add_args2 ex_st3))
       = Memories (ascii ''notes'') (ascii ''s2'') [ex_memory2]"
    by code_simp
  show ?thesis using a n e c s' g' b v(4,5) k m by blast
qed


section \<open>Search: matching and highlighting\<close>

text \<open>\<open>str_in\<close> is the substring relation.\<close>

lemma str_in_iff: "str_in q s \<longleftrightarrow> (\<exists>ps ss. s = ps @ q @ ss)"
proof (induction s)
  case Nil then show ?case by auto
next
  case (Cons c cs)
  have "(\<exists>ps ss. c # cs = ps @ q @ ss) \<longleftrightarrow>
        (\<exists>ss. c # cs = q @ ss) \<or> (\<exists>ps ss. cs = ps @ q @ ss)"
  proof
    assume "\<exists>ps ss. c # cs = ps @ q @ ss"
    then obtain ps ss where e: "c # cs = ps @ q @ ss" by blast
    show "(\<exists>ss. c # cs = q @ ss) \<or> (\<exists>ps ss. cs = ps @ q @ ss)"
    proof (cases ps)
      case Nil with e show ?thesis by auto
    next
      case (Cons p ps') with e show ?thesis by auto
    qed
  next
    assume "(\<exists>ss. c # cs = q @ ss) \<or> (\<exists>ps ss. cs = ps @ q @ ss)"
    then show "\<exists>ps ss. c # cs = ps @ q @ ss"
    proof
      assume "\<exists>ss. c # cs = q @ ss"
      then obtain ss where "c # cs = [] @ q @ ss" by auto
      then show ?thesis by blast
    next
      assume "\<exists>ps ss. cs = ps @ q @ ss"
      then obtain ps ss where "c # cs = (c # ps) @ q @ ss" by auto
      then show ?thesis by blast
    qed
  qed
  moreover have "(take (length q) (c # cs) = q) \<longleftrightarrow> (\<exists>ss. c # cs = q @ ss)"
    by (metis append_eq_conv_conj append_take_drop_id)
  ultimately show ?case using Cons.IH by simp
qed

lemma memory_matches_iff:
  "memory_matches U ql tf m \<longleftrightarrow>
     str_in ql (lower U (m_content m)) \<and> (tf = [] \<or> (\<exists>tag \<in> set tf. tag \<in> set (m_tags m)))"
  by (auto simp: memory_matches_def)

lemma parse_template_plain:
  "backslash \<notin> set s \<Longrightarrow> parse_template s = Inr (map Literal s)"
proof (induction s rule: parse_template.induct)
  case 1 then show ?case by (simp add: parse_template.simps)
next
  case (2 c) then show ?case by (simp add: parse_template.simps)
next
  case (3 b c rest)
  from "3.prems" have nb: "b \<noteq> backslash" and r: "backslash \<notin> set (c # rest)" by auto
  from "3.IH"(1)[OF nb r] have "parse_template (c # rest) = Inr (map Literal (c # rest))" .
  moreover have "parse_template (b # c # rest) = cons_item (Literal b) (parse_template (c # rest))"
    using nb by (subst parse_template.simps) simp
  ultimately show ?case by (simp add: cons_item_def)
qed

lemma expand_template_literals: "expand_template (map Literal r) m = r"
  by (induction r) auto

lemma sub_scan_literals:
  "q \<noteq> [] \<Longrightarrow> sub_scan U q (map Literal (ascii ''**'' @ q @ ascii ''**'')) s = spec_highlight U q s"
proof (induction U q s rule: spec_highlight.induct)
  case (1 U q) then show ?case by (simp add: sub_scan.simps spec_highlight.simps)
next
  case (2 U q c cs)
  show ?case
  proof (cases "matches_here U q (c # cs)")
    case True
    with 2 show ?thesis
      by (simp add: sub_scan.simps(2)[of U q _ c cs] spec_highlight.simps(2)[of U q c cs]
          expand_template_literals del: map_append)
  next
    case False
    with 2 show ?thesis
      by (simp add: sub_scan.simps(2)[of U q _ c cs] spec_highlight.simps(2)[of U q c cs])
  qed
qed

lemma highlight_without_backslash:
  assumes "backslash \<notin> set query" "query \<noteq> []"
  shows "highlight U query ql content =
     Inr (if str_in ql (lower U content) then spec_highlight U query content else content)"
proof -
  define repl where "repl = ascii ''**'' @ query @ ascii ''**''"
  have h: "highlight U query ql content =
      (if str_in ql (lower U content) then pattern_sub U query repl content else Inr content)"
    by (simp add: highlight_def repl_def)
  have "backslash \<notin> set (ascii ''**'')" by code_simp
  then have "backslash \<notin> set repl" using assms(1) by (simp add: repl_def)
  then have p: "parse_template repl = Inr (map Literal repl)" by (rule parse_template_plain)
  have s: "sub_scan U query (map Literal repl) content = spec_highlight U query content"
    unfolding repl_def by (rule sub_scan_literals[OF assms(2)])
  show ?thesis by (simp add: h pattern_sub_def p s)
qed

lemma render_results_without_backslash:
  assumes "backslash \<notin> set query" "query \<noteq> []"
  shows "render_results U st query ql ms =
     Inr (map (\<lambda>memory. \<lparr>r_memory = memory,
                r_session_name = session_name st (m_session_id memory),
                r_highlighted = (if str_in ql (lower U (m_content memory))
                                 then spec_highlight U query (m_content memory)
                                 else m_content memory)\<rparr>) ms)"
  by (induction ms) (simp_all add: highlight_without_backslash[OF assms])

text \<open>Claim C9 at a query with a backslash. The handler passes \<open>**query**\<close> to the
  substitution as a template, so the \<open>\n\<close> of the query is expanded to a line feed: the
  displayed content differs from the transform the specification describes, which keeps
  the query as it is.\<close>

theorem highlight_backslash_query:
  "dict_values (memories nl_state) = [nl_memory]
   \<and> handle_search_memories U nl_search_args nl_state
       = SearchResults nl_query None []
           [\<lparr>r_memory = nl_memory, r_session_name = ascii ''proj'',
             r_highlighted = ascii ''a**'' @ [10] @ ascii ''**b''\<rparr>]
   \<and> spec_highlight U nl_query (m_content nl_memory) = ascii ''a**'' @ nl_query @ ascii ''**b''"
  by code_simp

text \<open>C9 at the example tables.\<close>

theorem highlight_backslash_query_witness:
  "handle_search_memories ex_unicode nl_search_args nl_state
       = SearchResults nl_query None []
           [\<lparr>r_memory = nl_memory, r_session_name = ascii ''proj'',
             r_highlighted = ascii ''a**'' @ [10] @ ascii ''**b''\<rparr>]
   \<and> spec_highlight ex_unicode nl_query (m_content nl_memory) = ascii ''a**'' @ nl_query @ ascii ''**b''"
  using highlight_backslash_query[of ex_unicode] by simp

text \<open>Claim C3 at a query with a bad escape. The memory matches the query and no tag filter is
  given, yet the call raises in the highlighting loop and returns no results.\<close>

theorem search_bad_escape_raises:
  "dict_values (memories bd_state) = [bd_memory]
   \<and> memory_matches U (lower U (strip bd_query)) [] bd_memory
   \<and> handle_search_memories U bd_search_args bd_state = Raised TemplateError"
  by code_simp

text \<open>C3 at the example tables.\<close>

theorem search_bad_escape_raises_witness:
  "memory_matches ex_unicode (lower ex_unicode (strip bd_query)) [] bd_memory
   \<and> handle_search_memories ex_unicode bd_search_args bd_state = Raised TemplateError"
  using search_bad_escape_raises[of ex_unicode] by simp

lemma set_sort_reverse: "set (sort_reverse f xs) = set xs"
  by (simp add: sort_reverse_def)

text \<open>For a query without a backslash the search returns results: a memory of the search
  universe is among them exactly when the trimmed, lower-cased query occurs in its
  lower-cased content and, for a non-empty tag filter, one of the filter's tags is among its
  tags; each result is displayed as the specification's transform of its content.\<close>

lemma search_without_backslash:
  assumes q: "a_query args = Some query" "\<exists>c \<in> set query. \<not> is_space c" "backslash \<notin> set query"
    and s: "\<not> truthy (a_session_id args) \<or> session_exists st (the (a_session_id args))"
    and universe_def: "universe = (if truthy (a_session_id args)
                         then get_session_memories st (the (a_session_id args))
                         else dict_values (memories st))"
    and tf_def: "tf = (case a_tags args of None \<Rightarrow> [] | Some ts \<Rightarrow> ts)"
  shows "\<exists>scope rs. handle_search_memories U args st = SearchResults query scope tf rs
     \<and> (\<forall>m \<in> set universe. m \<in> r_memory ` set rs \<longleftrightarrow>
            str_in (lower U (strip query)) (lower U (m_content m))
            \<and> (tf = [] \<or> (\<exists>tag \<in> set tf. tag \<in> set (m_tags m))))
     \<and> r_memory ` set rs \<subseteq> set universe
     \<and> (\<forall>r \<in> set rs. r_highlighted r = spec_highlight U query (m_content (r_memory r)))"
proof -
  define ql where "ql = lower U (strip query)"
  define ms where "ms = sort_reverse m_created_at (filter (memory_matches U ql tf) universe)"
  define rs where "rs = map (\<lambda>memory. \<lparr>r_memory = memory,
                r_session_name = session_name st (m_session_id memory),
                r_highlighted = (if str_in ql (lower U (m_content memory))
                                 then spec_highlight U query (m_content memory)
                                 else m_content memory)\<rparr>) ms"
  define scope where "scope = (if truthy (a_session_id args)
      then Some (session_name st (the (a_session_id args))) else None)"
  from q(2) have sq: "strip query \<noteq> []" by (simp add: strip_empty_iff)
  then have ne: "query \<noteq> []" using strip_Nil by auto
  have rr: "render_results U st query ql ms = Inr rs"
    unfolding rs_def by (rule render_results_without_backslash[OF q(3) ne])
  have nb: "\<not> blank (a_query args)" using q(1) sq ne by simp
  have "handle_search_memories U args st = SearchResults query scope tf rs"
  proof (cases "ms = []")
    case True
    then have "rs = []" by (simp add: rs_def)
    with True nb s q(1) show ?thesis
      by (auto simp: handle_search_memories_def Let_def ms_def ql_def tf_def universe_def scope_def)
  next
    case False
    with nb s q(1) rr show ?thesis
      by (auto simp: handle_search_memories_def Let_def ms_def ql_def tf_def universe_def scope_def)
  qed
  moreover have img: "r_memory ` set rs = {m \<in> set universe. memory_matches U ql tf m}"
    by (auto simp: rs_def ms_def set_sort_reverse image_iff)
  then have "\<forall>m \<in> set universe. m \<in> r_memory ` set rs \<longleftrightarrow>
            str_in (lower U (strip query)) (lower U (m_content m))
            \<and> (tf = [] \<or> (\<exists>tag \<in> set tf. tag \<in> set (m_tags m)))"
    by (simp add: memory_matches_iff ql_def)
  moreover from img have "r_memory ` set rs \<subseteq> set universe" by auto
  moreover have "\<forall>r \<in> set rs. r_highlighted r = spec_highlight U query (m_content (r_memory r))"
    by (auto simp: rs_def ms_def set_sort_reverse memory_matches_iff)
  ultimately show ?thesis by blast
qed

end
